theory Spec2Isabelle
  imports Complex_Main "HOL-Library.AList"
begin

section \<open>JavaScript values\<close>

text \<open>
  The TypeScript sources handle untyped JSON (\<^verbatim>\<open>any\<close>): the frames read from the
  backend socket, the bodies of the HTTP responses of the generation service.  A value is
  modelled as it is after \<^verbatim>\<open>JSON.parse\<close>, with \<^verbatim>\<open>undefined\<close> added for the
  result of reading an absent property.  An object is the list of its own properties
  (the first entry of a name is the property); numbers are the rationals that the parsed
  doubles denote.
\<close>

datatype jsv =
    Undefined
  | Null
  | Bool bool
  | Num rat
  | Str string
  | Arr "jsv list"
  | Obj "(string \<times> jsv) list"

text \<open>\<^verbatim>\<open>!!v\<close>: the truth value of a value in a condition.\<close>

fun truthy :: "jsv \<Rightarrow> bool" where
  "truthy Undefined = False"
| "truthy Null = False"
| "truthy (Bool b) = b"
| "truthy (Num r) = (r \<noteq> 0)"
| "truthy (Str s) = (s \<noteq> [])"
| "truthy (Arr xs) = True"
| "truthy (Obj kvs) = True"

fun nullish :: "jsv \<Rightarrow> bool" where
  "nullish Undefined = True"
| "nullish Null = True"
| "nullish v = False"

text \<open>
  \<^verbatim>\<open>v.name\<close> for a property name that is not an array index: reading a property of
  \<^verbatim>\<open>null\<close> or \<^verbatim>\<open>undefined\<close> throws a TypeError (\<open>None\<close>); arrays and strings
  have \<^verbatim>\<open>length\<close>; every other absent property reads as \<^verbatim>\<open>undefined\<close>.
\<close>

fun js_get :: "jsv \<Rightarrow> string \<Rightarrow> jsv option" where
  "js_get Undefined name = None"
| "js_get Null name = None"
| "js_get (Obj kvs) name = Some (case map_of kvs name of Some v \<Rightarrow> v | None \<Rightarrow> Undefined)"
| "js_get (Arr xs) name = Some (if name = ''length'' then Num (of_nat (length xs)) else Undefined)"
| "js_get (Str s) name = Some (if name = ''length'' then Num (of_nat (length s)) else Undefined)"
| "js_get v name = Some Undefined"

text \<open>The decimal numeral of a natural number, as a template literal prints it.\<close>

fun dec :: "nat \<Rightarrow> string" where
  "dec n = (if n < 10 then [''0123456789'' ! n] else dec (n div 10) @ [''0123456789'' ! (n mod 10)])"

text \<open>
  \<^verbatim>\<open>v[i]\<close> for an array index \<open>i\<close>: an element of an array, a one-character string
  of a string, the property named by the numeral of an object.
\<close>

fun js_index :: "jsv \<Rightarrow> nat \<Rightarrow> jsv option" where
  "js_index Undefined i = None"
| "js_index Null i = None"
| "js_index (Obj kvs) i = Some (case map_of kvs (dec i) of Some v \<Rightarrow> v | None \<Rightarrow> Undefined)"
| "js_index (Arr xs) i = Some (if i < length xs then xs ! i else Undefined)"
| "js_index (Str s) i = Some (if i < length s then Str [s ! i] else Undefined)"
| "js_index v i = Some Undefined"

section \<open>Connection Supervisor: \<^verbatim>\<open>BackendClient\<close>\<close>

text \<open>
  A value that is thrown or passed to \<^verbatim>\<open>reject\<close>: an \<^verbatim>\<open>Error\<close> object with its
  message, or a value that is not an instance of \<^verbatim>\<open>Error\<close>.
\<close>

datatype thrown = ErrorObj string | NonError

text \<open>
  How a promise returned by \<^verbatim>\<open>send\<close> is settled: \<^verbatim>\<open>resolve(v)\<close>,
  \<^verbatim>\<open>reject(new Error(v))\<close> for a value \<open>v\<close> read from a frame, or \<^verbatim>\<open>reject(e)\<close>.
\<close>

datatype outcome = Resolved jsv | RejectedNew jsv | Rejected thrown

record sock =
  sock_id :: nat
  destroyed :: bool

record BackendReq =
  req_id :: string
  req_method :: string
  req_params :: jsv

type_synonym log_entry = "string \<times> (string \<times> jsv) list"

text \<open>
  The fields of the class (\<open>socket\<close>, \<open>buffer\<close>, \<open>pending\<close>, \<open>backendProcess\<close>) and
  a record of what the client did to its surroundings.  A call of \<^verbatim>\<open>send\<close> is
  named by a number, its handle: \<open>pending\<close> maps a correlation id to the handle whose
  \<^verbatim>\<open>resolve\<close> and \<^verbatim>\<open>reject\<close> it stores (a JavaScript \<^verbatim>\<open>Map\<close> keeps insertion
  order, as the association list does), and \<open>settled\<close> lists every call of a
  \<^verbatim>\<open>resolve\<close> or \<^verbatim>\<open>reject\<close> of a handle, in order.  \<open>written\<close> are the frames
  written to a socket, \<open>slept\<close> the delays waited, \<open>connects\<close> counts the calls of
  \<^verbatim>\<open>net.createConnection\<close>, \<open>spawned\<close> the child processes started, and
  \<open>exited\<close> is the code of \<^verbatim>\<open>process.exit\<close> once it was called.
\<close>

record BackendClient =
  socket :: "sock option"
  buffer :: string
  pending :: "(string \<times> nat) list"
  backendProcess :: "nat option"
  settled :: "(nat \<times> outcome) list"
  logged :: "log_entry list"
  written :: "(nat \<times> BackendReq) list"
  slept :: "rat list"
  connects :: nat
  spawned :: nat
  exited :: "int option"

text \<open>
  What the surroundings decide: the result of \<^verbatim>\<open>JSON.parse\<close> on a line (\<open>None\<close>
  when it throws a SyntaxError), the outcome of the \<open>n\<close>-th connection attempt
  (\<open>None\<close> when the socket connects, the error of its \<^verbatim>\<open>error\<close> event otherwise) and
  the path that \<^verbatim>\<open>startBackend\<close> resolves for the backend's entry point.
\<close>

record env =
  JSON_parse :: "string \<Rightarrow> jsv option"
  connect_result :: "nat \<Rightarrow> thrown option"
  backendPath :: string

definition new_client :: BackendClient where
  "new_client = \<lparr>socket = None, buffer = [], pending = [], backendProcess = None,
     settled = [], logged = [], written = [], slept = [], connects = 0, spawned = 0,
     exited = None\<rparr>"

text \<open>
  \<^verbatim>\<open>log(msg, meta)\<close> appends a line to the log file and swallows every failure of
  doing so; the model keeps the message and the fields of \<open>meta\<close> (not the timestamp).
\<close>

definition client_log :: "string \<Rightarrow> (string \<times> jsv) list \<Rightarrow> BackendClient \<Rightarrow> BackendClient" where
  "client_log msg meta s = s\<lparr>logged := logged s @ [(msg, meta)]\<rparr>"

text \<open>\<^verbatim>\<open>(e as any)?.message\<close>\<close>

fun message_of :: "thrown \<Rightarrow> jsv" where
  "message_of (ErrorObj m) = Str m"
| "message_of NonError = Undefined"

definition resolve :: "nat \<Rightarrow> jsv \<Rightarrow> BackendClient \<Rightarrow> BackendClient" where
  "resolve p v s = s\<lparr>settled := settled s @ [(p, Resolved v)]\<rparr>"

definition reject :: "nat \<Rightarrow> outcome \<Rightarrow> BackendClient \<Rightarrow> BackendClient" where
  "reject p e s = s\<lparr>settled := settled s @ [(p, e)]\<rparr>"

text \<open>
  \<^verbatim>\<open>connect()\<close>: one connection attempt to 127.0.0.1:31414.  When the socket connects
  it becomes \<open>socket\<close> and the \<^verbatim>\<open>data\<close>, \<^verbatim>\<open>error\<close> and \<^verbatim>\<open>close\<close> handlers are
  installed; when it fails the error is logged and the promise rejects with it.
\<close>

definition connect :: "env \<Rightarrow> BackendClient \<Rightarrow> (thrown + unit) \<times> BackendClient" where
  "connect ev s =
     (case connect_result ev (connects s) of
        None \<Rightarrow>
          (Inr (), client_log ''connect(): connected to backend'' []
             (s\<lparr>socket := Some \<lparr>sock_id = connects s, destroyed = False\<rparr>,
                connects := Suc (connects s)\<rparr>))
      | Some e \<Rightarrow>
          (Inl e, client_log ''connect(): error'' [(''error'', message_of e)]
             (s\<lparr>connects := Suc (connects s)\<rparr>)))"

text \<open>
  \<^verbatim>\<open>startBackend()\<close> spawns the backend with the resolved path, keeps the child in
  \<open>backendProcess\<close> and resolves at once.
\<close>

definition startBackend :: "env \<Rightarrow> BackendClient \<Rightarrow> BackendClient" where
  "startBackend ev s =
     (let s1 = client_log ''startBackend(): spawning'' [(''path'', Str (backendPath ev))] s
      in s1\<lparr>backendProcess := Some (spawned s1), spawned := Suc (spawned s1)\<rparr>)"

text \<open>
  The handler of the child's \<^verbatim>\<open>exit\<close> event; \<open>code\<close> is \<^verbatim>\<open>null\<close> (\<open>None\<close>) when a
  signal ended the child.
\<close>

definition on_exit :: "int option \<Rightarrow> BackendClient \<Rightarrow> BackendClient" where
  "on_exit code s =
     (let s1 = s\<lparr>backendProcess := None\<rparr>
      in if code = Some 0 then
           (client_log ''startBackend(): backend exited cleanly (likely lock failure), exiting wrapper'' [] s1)
             \<lparr>exited := Some 0\<rparr>
         else if code \<noteq> None then
           client_log ''startBackend(): backend exited unexpectedly''
             [(''exitCode'', Num (of_int (the code)))] s1
         else s1)"

definition maxAttempts :: nat where
  "maxAttempts = 40"

text \<open>
  \<^verbatim>\<open>Math.min(250 * Math.pow(1.4, attempt), 2000)\<close>, in exact arithmetic (the source
  computes the same expression in double precision).
\<close>

definition delayMs :: "nat \<Rightarrow> rat" where
  "delayMs attempt = min (250 * (7 / 5) ^ attempt) 2000"

text \<open>\<^verbatim>\<open>lastError instanceof Error ? lastError.message : 'Unknown error'\<close>\<close>

fun errorMessage :: "thrown \<Rightarrow> string" where
  "errorMessage (ErrorObj m) = m"
| "errorMessage NonError = ''Unknown error''"

text \<open>The \<^verbatim>\<open>for\<close> loop of \<^verbatim>\<open>connectWithRetry\<close> and the \<^verbatim>\<open>throw\<close> after it.\<close>

function retry_loop :: "env \<Rightarrow> nat \<Rightarrow> thrown \<Rightarrow> BackendClient \<Rightarrow> (thrown + unit) \<times> BackendClient" where
  "retry_loop ev attempt lastError s =
     (if attempt < maxAttempts then
        (let s1 = s\<lparr>slept := slept s @ [delayMs attempt]\<rparr>
         in case connect ev s1 of
              (Inr u, s2) \<Rightarrow> (Inr (), s2)
            | (Inl error, s2) \<Rightarrow>
                retry_loop ev (attempt + 1) error
                  (client_log ''connectWithRetry(): retry failed''
                     [(''attempt'', Num (of_nat (attempt + 1))), (''delayMs'', Num (delayMs attempt)),
                      (''error'', message_of error)] s2))
      else
        (Inl (ErrorObj (''Unable to connect to Foundry MCP backend after '' @ dec maxAttempts
                 @ '' attempts: '' @ errorMessage lastError)), s))"
  by pat_completeness auto
termination
  by (relation "measure (\<lambda>(ev, attempt, lastError, s). maxAttempts - attempt)") auto

definition connectWithRetry :: "env \<Rightarrow> BackendClient \<Rightarrow> (thrown + unit) \<times> BackendClient" where
  "connectWithRetry ev s =
     (case connect ev s of
        (Inr u, s1) \<Rightarrow> (Inr (), s1)
      | (Inl initialError, s1) \<Rightarrow>
          retry_loop ev 0 initialError
            (startBackend ev (client_log ''connectWithRetry(): starting backend'' [] s1)))"

text \<open>\<^verbatim>\<open>ensure()\<close>\<close>

definition ensure :: "env \<Rightarrow> BackendClient \<Rightarrow> (thrown + unit) \<times> BackendClient" where
  "ensure ev s =
     (if (case socket s of Some k \<Rightarrow> \<not> destroyed k | None \<Rightarrow> False) then (Inr (), s)
      else connectWithRetry ev (client_log ''ensure(): connecting to backend'' [] s))"

text \<open>
  \<^verbatim>\<open>this.pending.get(msg.id)\<close>: the keys of the table are strings, so only a string
  finds an entry.
\<close>

fun pending_get :: "(string \<times> nat) list \<Rightarrow> jsv \<Rightarrow> nat option" where
  "pending_get tbl (Str k) = map_of tbl k"
| "pending_get tbl v = None"

fun pending_delete :: "jsv \<Rightarrow> (string \<times> nat) list \<Rightarrow> (string \<times> nat) list" where
  "pending_delete (Str k) tbl = AList.delete k tbl"
| "pending_delete v tbl = tbl"

text \<open>
  The body of the loop of \<^verbatim>\<open>onData\<close> for one non-empty line: the \<^verbatim>\<open>try\<close> block
  and its \<^verbatim>\<open>catch\<close>, which a SyntaxError of \<^verbatim>\<open>JSON.parse\<close> and the TypeError of
  reading \<^verbatim>\<open>msg.id\<close> of \<^verbatim>\<open>null\<close> both reach (the log line of the \<^verbatim>\<open>catch\<close>
  is kept with the length of the line, without the engine's text of the exception).
\<close>

definition parse_error :: "string \<Rightarrow> BackendClient \<Rightarrow> BackendClient" where
  "parse_error line s =
     client_log ''onData(): JSON parse error'' [(''lineLength'', Num (of_nat (length line)))] s"

definition handle_line :: "env \<Rightarrow> string \<Rightarrow> BackendClient \<Rightarrow> BackendClient" where
  "handle_line ev line s =
     (case JSON_parse ev line of
        None \<Rightarrow> parse_error line s
      | Some msg \<Rightarrow>
          (case (js_get msg ''id'', js_get msg ''error'', js_get msg ''result'') of
             (Some mid, Some err, Some res) \<Rightarrow>
               (let s1 = client_log ''onData(): received response''
                           [(''id'', mid), (''hasError'', Bool (truthy err)),
                            (''hasResult'', Bool (truthy res))] s
                in case pending_get (pending s1) mid of
                     None \<Rightarrow> client_log ''onData(): no pending request found'' [(''id'', mid)] s1
                   | Some p \<Rightarrow>
                       (let s2 = s1\<lparr>pending := pending_delete mid (pending s1)\<rparr>
                        in if truthy err
                           then reject p (RejectedNew (case js_get err ''message'' of
                                                         Some m \<Rightarrow> m | None \<Rightarrow> Undefined)) s2
                           else resolve p res s2))
           | _ \<Rightarrow> parse_error line s))"

text \<open>
  \<^verbatim>\<open>buffer.indexOf('\n')\<close>, with \<open>None\<close> for the source's \<open>-1\<close>, and
  \<^verbatim>\<open>String.prototype.trim\<close> on the ASCII white space.
\<close>

definition newline :: char where
  "newline = CHR 0x0A"

definition indexOf :: "string \<Rightarrow> char \<Rightarrow> nat option" where
  "indexOf str c = (if c \<in> set str then Some (length (takeWhile (\<lambda>x. x \<noteq> c) str)) else None)"

definition is_space :: "char \<Rightarrow> bool" where
  "is_space c = (c \<in> set [CHR 0x20, CHR 0x09, CHR 0x0A, CHR 0x0B, CHR 0x0C, CHR 0x0D])"

definition trim :: "string \<Rightarrow> string" where
  "trim str = rev (dropWhile is_space (rev (dropWhile is_space str)))"

text \<open>The \<^verbatim>\<open>while\<close> loop of \<^verbatim>\<open>onData\<close>, and \<^verbatim>\<open>onData\<close>.\<close>

function onData_loop :: "env \<Rightarrow> BackendClient \<Rightarrow> BackendClient" where
  "onData_loop ev s =
     (case indexOf (buffer s) newline of
        None \<Rightarrow> s
      | Some idx \<Rightarrow>
          (let line = trim (take idx (buffer s));
               s1 = s\<lparr>buffer := drop (idx + 1) (buffer s)\<rparr>
           in if line = [] then onData_loop ev s1
              else onData_loop ev (handle_line ev line s1)))"
  by pat_completeness auto
termination
proof (relation "measure (\<lambda>(ev, s). length (buffer s))")
  have less: "length (takeWhile (\<lambda>x. x \<noteq> c) str) < length str" if "c \<in> set str"
    for c :: char and str
    using that by (induction str) auto
  have keep: "buffer (handle_line ev line s) = buffer s" for ev line s
    by (simp add: handle_line_def parse_error_def client_log_def resolve_def reject_def Let_def
        split: option.splits prod.splits)
  fix ev :: env and s :: BackendClient and idx line s1
  assume idx: "indexOf (buffer s) newline = Some idx"
    and s1: "s1 = s\<lparr>buffer := drop (idx + 1) (buffer s)\<rparr>"
  from idx have "idx < length (buffer s)"
    by (auto simp: indexOf_def less split: if_splits)
  then have shorter: "length (buffer s1) < length (buffer s)"
    by (simp add: s1)
  show "((ev, s1), (ev, s)) \<in> measure (\<lambda>(ev, s). length (buffer s))"
    using shorter by simp
  show "((ev, handle_line ev line s1), (ev, s)) \<in> measure (\<lambda>(ev, s). length (buffer s))"
    using shorter by (simp add: keep)
qed simp

definition onData :: "env \<Rightarrow> string \<Rightarrow> BackendClient \<Rightarrow> BackendClient" where
  "onData ev chunk s = onData_loop ev (s\<lparr>buffer := buffer s @ chunk\<rparr>)"

text \<open>\<^verbatim>\<open>rejectAll(err)\<close>\<close>

definition rejectAll :: "thrown \<Rightarrow> BackendClient \<Rightarrow> BackendClient" where
  "rejectAll err s =
     (foldl (\<lambda>s' (k, p). reject p (Rejected err) s') s (pending s))
       \<lparr>pending := [], socket := None\<rparr>"

text \<open>
  The handlers of a connected socket's \<^verbatim>\<open>error\<close> event (the handler that
  \<^verbatim>\<open>connect\<close> installed first logs, then \<^verbatim>\<open>rejectAll\<close> runs) and of its
  \<^verbatim>\<open>close\<close> event.
\<close>

definition on_error :: "thrown \<Rightarrow> BackendClient \<Rightarrow> BackendClient" where
  "on_error err s = rejectAll err (client_log ''connect(): error'' [(''error'', message_of err)] s)"

definition on_close :: "BackendClient \<Rightarrow> BackendClient" where
  "on_close s = rejectAll (ErrorObj ''Backend disconnected'') s"

text \<open>
  \<^verbatim>\<open>send(meth, args)\<close> for the call with handle \<open>p\<close>; \<open>rid\<close> is the string that
  \<^verbatim>\<open>Math.random().toString(36).slice(2)\<close> produced and \<open>wr\<close> the exception of
  serialising and writing the frame, if any.  Reading \<^verbatim>\<open>write\<close> of a \<^verbatim>\<open>null\<close>
  socket is a TypeError, with the message of V8.
\<close>

definition send :: "env \<Rightarrow> nat \<Rightarrow> string \<Rightarrow> string \<Rightarrow> jsv \<Rightarrow> thrown option \<Rightarrow> BackendClient \<Rightarrow> BackendClient" where
  "send ev p rid meth args wr s =
     (case ensure ev s of
        (Inl e, s1) \<Rightarrow>
          reject p (Rejected e) (client_log ''send(): ensure failed'' [(''error'', message_of e)] s1)
      | (Inr u, s1) \<Rightarrow>
          (let req = \<lparr>req_id = rid, req_method = meth, req_params = args\<rparr>;
               s2 = s1\<lparr>pending := AList.update rid p (pending s1)\<rparr>;
               s3 = client_log ''send(): write'' [(''method'', Str meth)] s2;
               failure = (case socket s3 of
                            None \<Rightarrow> Some (ErrorObj ''Cannot read properties of null (reading 'write')'')
                          | Some k \<Rightarrow> wr)
           in case failure of
                None \<Rightarrow> s3\<lparr>written := written s3 @ [(sock_id (the (socket s3)), req)]\<rparr>
              | Some e \<Rightarrow>
                  reject p (Rejected e)
                    (client_log ''send(): write error'' [(''error'', message_of e)]
                       (s3\<lparr>pending := AList.delete rid (pending s3)\<rparr>))))"

text \<open>
  What can happen to a client, one event at a time: a call of \<^verbatim>\<open>send\<close>, a chunk
  read from the socket, the \<^verbatim>\<open>error\<close> or \<^verbatim>\<open>close\<close> event of a connected socket,
  the exit of the child.  After \<^verbatim>\<open>process.exit\<close> nothing runs any more.  A call of
  \<^verbatim>\<open>send\<close> that has to connect first is one event here: what other calls do while
  it waits in the retry loop is not modelled.
\<close>

datatype event =
    Send nat string string jsv "thrown option"
  | Data string
  | SockError thrown
  | SockClose
  | ChildExit "int option"

fun step :: "env \<Rightarrow> BackendClient \<Rightarrow> event \<Rightarrow> BackendClient" where
  "step ev s e =
     (if exited s \<noteq> None then s
      else case e of
             Send p rid meth args wr \<Rightarrow> send ev p rid meth args wr s
           | Data chunk \<Rightarrow> onData ev chunk s
           | SockError err \<Rightarrow> on_error err s
           | SockClose \<Rightarrow> on_close s
           | ChildExit code \<Rightarrow> on_exit code s)"

definition run :: "env \<Rightarrow> event list \<Rightarrow> BackendClient \<Rightarrow> BackendClient" where
  "run ev evs s = foldl (step ev) s evs"

text \<open>The outcomes with which the promise of the call \<open>p\<close> was settled, in order.\<close>

definition entries :: "nat \<Rightarrow> (nat \<times> outcome) list \<Rightarrow> outcome list" where
  "entries p xs = map snd (filter (\<lambda>x. fst x = p) xs)"

subsection \<open>The wire format, in the words of the specification\<close>

text \<open>
  The frames of a byte stream: one per line that a newline ends, without the white space
  around it, blank lines left out; what follows the last newline is a partial frame.
\<close>

fun complete_lines :: "string \<Rightarrow> string \<Rightarrow> string list" where
  "complete_lines acc [] = []"
| "complete_lines acc (c # cs) =
     (if c = newline then acc # complete_lines [] cs else complete_lines (acc @ [c]) cs)"

fun partial_frame :: "string \<Rightarrow> string \<Rightarrow> string" where
  "partial_frame acc [] = acc"
| "partial_frame acc (c # cs) =
     (if c = newline then partial_frame [] cs else partial_frame (acc @ [c]) cs)"

definition frames :: "string \<Rightarrow> string list" where
  "frames str = filter (\<lambda>l. l \<noteq> []) (map trim (complete_lines [] str))"

text \<open>
  A line is a response to the request with id \<open>rid\<close> when it parses to a value whose
  \<^verbatim>\<open>id\<close> is that string; what it carries is its \<^verbatim>\<open>result\<close>, or the message of
  its \<^verbatim>\<open>error\<close> when it has one.
\<close>

definition field :: "jsv \<Rightarrow> string \<Rightarrow> jsv" where
  "field v name = (case js_get v name of Some x \<Rightarrow> x | None \<Rightarrow> Undefined)"





subsection \<open>Notions used in the statements about the client\<close>

text \<open>The frames of a list of lines go through the body of the loop one after the other.\<close>

definition deliver :: "env \<Rightarrow> string list \<Rightarrow> BackendClient \<Rightarrow> BackendClient" where
  "deliver ev ls s = foldl (\<lambda>s l. handle_line ev l s) s ls"



definition unknown :: "nat \<Rightarrow> BackendClient \<Rightarrow> bool" where
  "unknown p s \<longleftrightarrow> p \<notin> snd ` set (pending s)"

fun is_send_of :: "nat \<Rightarrow> event \<Rightarrow> bool" where
  "is_send_of p (Send q rid meth args wr) = (q = p)"
| "is_send_of p e = False"

text \<open>The error with which the handler of a socket event rejects the pending calls.\<close>

fun lost :: "event \<Rightarrow> thrown option" where
  "lost (SockError err) = Some err"
| "lost SockClose = Some (ErrorObj ''Backend disconnected'')"
| "lost e = None"

text \<open>
  The handles of the calls of \<^verbatim>\<open>send\<close> in a list of events, and the condition
  under which the table of pending requests is read below: each pending entry belongs
  to a different call, no pending call has been settled, every call that is pending or
  settled is one of \<open>U\<close>, and the buffer holds no complete line.
\<close>

fun handles :: "event list \<Rightarrow> nat list" where
  "handles [] = []"
| "handles (Send p rid meth args wr # evs) = p # handles evs"
| "handles (e # evs) = handles evs"

definition tidy :: "nat set \<Rightarrow> BackendClient \<Rightarrow> bool" where
  "tidy U s \<longleftrightarrow> distinct (map snd (pending s)) \<and>
     snd ` set (pending s) \<inter> fst ` set (settled s) = {} \<and>
     snd ` set (pending s) \<union> fst ` set (settled s) \<subseteq> U \<and>
     newline \<notin> set (buffer s)"

subsection \<open>Concrete surroundings\<close>

text \<open>
  A backend that answers, with a parser that knows three frames; a client connected to
  it; traffic in which the responses arrive in the reverse order of the requests, the
  last one split over two chunks.
\<close>

definition demo_env :: env where
  "demo_env = \<lparr>JSON_parse = (\<lambda>l.
        if l = ''A'' then Some (Obj [(''id'', Str ''a''), (''result'', Num 1)])
        else if l = ''B'' then Some (Obj [(''id'', Str ''b''), (''result'', Num 2)])
        else if l = ''C'' then Some (Obj [(''id'', Str ''c''), (''result'', Num 3)])
        else None),
      connect_result = (\<lambda>n. None), backendPath = ''backend.js''\<rparr>"

definition demo_client :: BackendClient where
  "demo_client = new_client\<lparr>socket := Some \<lparr>sock_id = 0, destroyed = False\<rparr>\<rparr>"


text \<open>A client with two calls pending.\<close>

definition busy_client :: BackendClient where
  "busy_client = demo_client\<lparr>pending := [(''a'', 1), (''b'', 2)]\<rparr>"

text \<open>Surroundings in which nothing listens on the port.\<close>

definition refused :: env where
  "refused = \<lparr>JSON_parse = (\<lambda>l. None),
      connect_result = (\<lambda>n. Some (ErrorObj ''connect ECONNREFUSED 127.0.0.1:31414'')),
      backendPath = ''backend.bundle.cjs''\<rparr>"

section \<open>Dual-Transport Bridge: \<^verbatim>\<open>SocketBridge\<close>\<close>

datatype conn_state = DISCONNECTED | CONNECTING | CONNECTED | RECONNECTING

datatype transport = WebSocket | WebRTC

text \<open>\<^verbatim>\<open>connectionType?: 'auto' | 'webrtc' | 'websocket'\<close>\<close>

datatype connection_type = Auto | Only transport

record BridgeConfig =
  enabled :: bool
  serverHost :: string
  serverPort :: nat
  namespace :: string
  config_reconnectAttempts :: nat
  reconnectDelay :: nat
  connectionTimeout :: nat
  debugLogging :: bool
  connectionType :: "connection_type option"

text \<open>
  A timer that was set and has neither fired nor been cleared: the timeout of one
  connection attempt, or a scheduled reconnect, each with its delay in milliseconds.
\<close>

datatype timer = ConnectTimeout nat | Reconnect nat

text \<open>
  The fields of the class, and the surroundings of a bridge in a browser page.  Timers,
  sockets and peer connections are named by numbers, all drawn from \<open>fresh\<close>
  (a timer id of a browser is a positive number, hence true in a condition).
  \<open>timers\<close> are the timers that are set, \<open>timeout_of\<close> keeps for each
  \<^verbatim>\<open>WebSocket\<close> the timer \<^verbatim>\<open>connectTimeout\<close> that its handlers close over,
  \<open>listening\<close> are the sockets with an \<^verbatim>\<open>onmessage\<close> handler, \<open>awaiting\<close> the
  peer connections whose \<^verbatim>\<open>connect\<close> is awaited, \<open>closed\<close> the transports that were
  told to close, \<open>scheduled\<close> the delays of all reconnect timers ever set, \<open>sent\<close> the
  messages handed to a transport, and \<open>delivered\<close> the events handed to the handlers
  that act on the Foundry side.  Console output is not modelled.
\<close>

record SocketBridge =
  config :: BridgeConfig
  ws :: "nat option"
  webrtc :: "nat option"
  connectionState :: conn_state
  reconnectAttempts :: nat
  maxReconnectAttempts :: nat
  reconnectTimer :: "nat option"
  activeConnectionType :: "transport option"
  timers :: "(nat \<times> timer) list"
  fresh :: nat
  timeout_of :: "(nat \<times> nat) list"
  listening :: "nat list"
  awaiting :: "nat list"
  closed :: "nat list"
  scheduled :: "nat list"
  sent :: "(transport \<times> nat \<times> jsv) list"
  delivered :: "(string \<times> jsv) list"

text \<open>
  What the page decides: whether it was loaded over HTTPS, whether constructing a
  \<^verbatim>\<open>WebSocket\<close> throws, the function that \<^verbatim>\<open>CONFIG.queries\<close> holds under a key
  (\<open>None\<close> when it holds none), applied to an argument (it returns or throws), and the
  conversion of a value to a string in a template literal.
\<close>

record page =
  isHttps :: bool
  ws_throws :: bool
  queries :: "jsv \<Rightarrow> (jsv \<Rightarrow> thrown + jsv) option"
  ToString :: "jsv \<Rightarrow> string"

text \<open>The constructor.\<close>

definition new_bridge :: "BridgeConfig \<Rightarrow> SocketBridge" where
  "new_bridge cfg = \<lparr>config = cfg, ws = None, webrtc = None, connectionState = DISCONNECTED,
     reconnectAttempts = 0, maxReconnectAttempts = config_reconnectAttempts cfg,
     reconnectTimer = None, activeConnectionType = None, timers = [], fresh = 1,
     timeout_of = [], listening = [], awaiting = [], closed = [], scheduled = [], sent = [],
     delivered = []\<rparr>"

definition clearTimeout :: "nat \<Rightarrow> SocketBridge \<Rightarrow> SocketBridge" where
  "clearTimeout h s = s\<lparr>timers := filter (\<lambda>x. fst x \<noteq> h) (timers s)\<rparr>"

text \<open>\<^verbatim>\<open>Math.min(1000 * Math.pow(2, attempts), 30000)\<close>\<close>

definition backoff :: "nat \<Rightarrow> nat" where
  "backoff attempts = min (1000 * 2 ^ attempts) 30000"

text \<open>\<^verbatim>\<open>scheduleReconnect()\<close>\<close>

definition scheduleReconnect :: "SocketBridge \<Rightarrow> SocketBridge" where
  "scheduleReconnect s =
     (if reconnectAttempts s \<ge> maxReconnectAttempts s then s
      else
        (let s1 = (case reconnectTimer s of Some h \<Rightarrow> clearTimeout h s | None \<Rightarrow> s);
             delay = backoff (reconnectAttempts s1);
             s2 = s1\<lparr>reconnectAttempts := reconnectAttempts s1 + 1\<rparr>;
             s3 = s2\<lparr>connectionState := RECONNECTING\<rparr>
         in s3\<lparr>reconnectTimer := Some (fresh s3),
                timers := timers s3 @ [(fresh s3, Reconnect delay)],
                scheduled := scheduled s3 @ [delay],
                fresh := Suc (fresh s3)\<rparr>))"

text \<open>\<^verbatim>\<open>determineConnectionType()\<close>\<close>

definition determineConnectionType :: "page \<Rightarrow> SocketBridge \<Rightarrow> transport" where
  "determineConnectionType pg s =
     (case (case connectionType (config s) of Some t \<Rightarrow> t | None \<Rightarrow> Auto) of
        Auto \<Rightarrow> (if isHttps pg then WebRTC else WebSocket)
      | Only t \<Rightarrow> t)"

text \<open>
  \<^verbatim>\<open>connectWebRTC()\<close> up to its \<^verbatim>\<open>await\<close>, and what follows the \<^verbatim>\<open>await\<close>
  when the peer connection is established or fails.
\<close>

definition connectWebRTC :: "SocketBridge \<Rightarrow> SocketBridge" where
  "connectWebRTC s =
     s\<lparr>activeConnectionType := Some WebRTC, webrtc := Some (fresh s),
       awaiting := fresh s # awaiting s, fresh := Suc (fresh s)\<rparr>"

definition rtc_connected :: "SocketBridge \<Rightarrow> SocketBridge" where
  "rtc_connected s = s\<lparr>connectionState := CONNECTED, reconnectAttempts := 0\<rparr>"

definition rtc_failed :: "SocketBridge \<Rightarrow> SocketBridge" where
  "rtc_failed s = scheduleReconnect (s\<lparr>connectionState := DISCONNECTED\<rparr>)"

text \<open>
  \<^verbatim>\<open>connectWebSocket()\<close>: the timeout is set, then the socket is constructed and its
  handlers are installed; when the constructor throws, the timeout is cleared and the
  state is \<open>DISCONNECTED\<close>.
\<close>

definition connectWebSocket :: "page \<Rightarrow> SocketBridge \<Rightarrow> SocketBridge" where
  "connectWebSocket pg s =
     (let s1 = s\<lparr>activeConnectionType := Some WebSocket\<rparr>;
          t = fresh s1;
          s2 = s1\<lparr>timers := timers s1 @ [(t, ConnectTimeout (connectionTimeout (config s1) * 1000))],
                 fresh := Suc t\<rparr>
      in if ws_throws pg then (clearTimeout t s2)\<lparr>connectionState := DISCONNECTED\<rparr>
         else s2\<lparr>ws := Some (fresh s2), timeout_of := (fresh s2, t) # timeout_of s2,
                 fresh := Suc (fresh s2)\<rparr>)"

text \<open>\<^verbatim>\<open>connect()\<close>, up to the first \<^verbatim>\<open>await\<close>.\<close>

definition bridge_connect :: "page \<Rightarrow> SocketBridge \<Rightarrow> SocketBridge" where
  "bridge_connect pg s =
     (if connectionState s = CONNECTED \<or> connectionState s = CONNECTING then s
      else
        (let s1 = s\<lparr>connectionState := CONNECTING\<rparr>
         in if determineConnectionType pg s1 = WebRTC then connectWebRTC s1
            else connectWebSocket pg s1))"

text \<open>\<^verbatim>\<open>setupEventHandlers()\<close>\<close>

definition setupEventHandlers :: "SocketBridge \<Rightarrow> SocketBridge" where
  "setupEventHandlers s =
     (case ws s of None \<Rightarrow> s | Some h \<Rightarrow> s\<lparr>listening := h # listening s\<rparr>)"

text \<open>
  The handlers \<^verbatim>\<open>onopen\<close>, \<^verbatim>\<open>onerror\<close>, \<^verbatim>\<open>onclose\<close> of a socket whose
  \<^verbatim>\<open>connectTimeout\<close> is the timer \<open>t\<close>, and the callback of that timer.
\<close>

definition ws_onopen :: "nat \<Rightarrow> SocketBridge \<Rightarrow> SocketBridge" where
  "ws_onopen t s =
     setupEventHandlers ((clearTimeout t s)\<lparr>connectionState := CONNECTED, reconnectAttempts := 0\<rparr>)"

definition ws_onerror :: "nat \<Rightarrow> SocketBridge \<Rightarrow> SocketBridge" where
  "ws_onerror t s = scheduleReconnect ((clearTimeout t s)\<lparr>connectionState := DISCONNECTED\<rparr>)"

definition ws_onclose :: "bool \<Rightarrow> SocketBridge \<Rightarrow> SocketBridge" where
  "ws_onclose wasClean s =
     (let s1 = s\<lparr>connectionState := DISCONNECTED\<rparr>
      in if wasClean then s1 else scheduleReconnect s1)"

definition connect_timed_out :: "SocketBridge \<Rightarrow> SocketBridge" where
  "connect_timed_out s = s\<lparr>connectionState := DISCONNECTED\<rparr>"

text \<open>\<^verbatim>\<open>disconnect()\<close>\<close>

definition disconnect :: "SocketBridge \<Rightarrow> SocketBridge" where
  "disconnect s =
     (let s1 = (case reconnectTimer s of
                  Some h \<Rightarrow> (clearTimeout h s)\<lparr>reconnectTimer := None\<rparr>
                | None \<Rightarrow> s);
          s2 = (case webrtc s1 of
                  Some c \<Rightarrow> s1\<lparr>closed := closed s1 @ [c], webrtc := None\<rparr>
                | None \<Rightarrow> s1);
          s3 = (case ws s2 of
                  Some h \<Rightarrow> s2\<lparr>closed := closed s2 @ [h], ws := None\<rparr>
                | None \<Rightarrow> s2)
      in s3\<lparr>activeConnectionType := None, connectionState := DISCONNECTED\<rparr>)"

text \<open>
  \<^verbatim>\<open>sendMessage(message)\<close>; \<open>tx\<close> tells whether the \<^verbatim>\<open>send\<close> of the transport
  throws (the exception is caught and logged).
\<close>

definition sendMessage :: "bool \<Rightarrow> jsv \<Rightarrow> SocketBridge \<Rightarrow> SocketBridge" where
  "sendMessage tx message s =
     (if connectionState s \<noteq> CONNECTED then s
      else if activeConnectionType s = Some WebRTC \<and> webrtc s \<noteq> None then
        (if tx then s else s\<lparr>sent := sent s @ [(WebRTC, the (webrtc s), message)]\<rparr>)
      else if activeConnectionType s = Some WebSocket \<and> ws s \<noteq> None then
        (if tx then s else s\<lparr>sent := sent s @ [(WebSocket, the (ws s), message)]\<rparr>)
      else s)"

text \<open>
  \<^verbatim>\<open>handleMCPQuery(data, callback)\<close>: the response that \<^verbatim>\<open>callback\<close> is called
  with, or \<open>None\<close> when an exception leaves the function before the callback is called
  (\<^verbatim>\<open>data\<close> is \<^verbatim>\<open>null\<close> or \<^verbatim>\<open>undefined\<close>: reading \<^verbatim>\<open>data.method\<close> throws in
  the \<^verbatim>\<open>try\<close> block and again in the \<^verbatim>\<open>catch\<close> block).
\<close>

definition failure :: "string \<Rightarrow> jsv" where
  "failure msg = Obj [(''success'', Bool False), (''error'', Str msg)]"

definition handleMCPQuery :: "page \<Rightarrow> jsv \<Rightarrow> jsv option" where
  "handleMCPQuery pg data =
     (case js_get data ''method'' of
        None \<Rightarrow> None
      | Some queryKey \<Rightarrow>
          (case queries pg queryKey of
             None \<Rightarrow> Some (failure (''No handler found for query: '' @ ToString pg queryKey))
           | Some handler \<Rightarrow>
               (case handler (if truthy (field data ''data'') then field data ''data'' else Obj []) of
                  Inr result \<Rightarrow> Some (Obj [(''success'', Bool True), (''data'', result)])
                | Inl error \<Rightarrow> Some (failure (errorMessage error)))))"

text \<open>
  \<^verbatim>\<open>handleMessage(message)\<close>; \<open>now\<close> is \<^verbatim>\<open>Date.now()\<close>.  The two handlers of
  events act on the Foundry side only and catch their own exceptions.
\<close>

definition handleMessage :: "page \<Rightarrow> bool \<Rightarrow> nat \<Rightarrow> jsv \<Rightarrow> SocketBridge \<Rightarrow> SocketBridge" where
  "handleMessage pg tx now message s =
     (case js_get message ''type'' of
        None \<Rightarrow> s
      | Some ty \<Rightarrow>
          if ty = Str ''mcp-query'' then
            (case handleMCPQuery pg (field message ''data'') of
               None \<Rightarrow> s
             | Some response \<Rightarrow>
                 sendMessage tx (Obj [(''type'', Str ''mcp-response''), (''id'', field message ''id''),
                                      (''data'', response)]) s)
          else if ty = Str ''ping'' then
            sendMessage tx (Obj [(''type'', Str ''pong''), (''id'', field message ''id''),
                                 (''data'', Obj [(''timestamp'', Num (of_nat now)),
                                                 (''status'', Str ''ok'')])]) s
          else if ty = Str ''job-completed'' then
            s\<lparr>delivered := delivered s @ [(''job-completed'', field message ''data'')]\<rparr>
          else if ty = Str ''map-generation-progress'' then
            s\<lparr>delivered := delivered s @ [(''map-generation-progress'', field message ''data'')]\<rparr>
          else s)"

text \<open>\<^verbatim>\<open>emitToServer(event, data)\<close>\<close>

definition emitToServer :: "bool \<Rightarrow> nat \<Rightarrow> string \<Rightarrow> jsv \<Rightarrow> SocketBridge \<Rightarrow> SocketBridge" where
  "emitToServer tx now event data s =
     sendMessage tx (Obj [(''type'', Str event), (''data'', data), (''timestamp'', Num (of_nat now))]) s"

text \<open>
  What can happen to a bridge: calls of \<^verbatim>\<open>connect\<close> and \<^verbatim>\<open>disconnect\<close>, the
  events of a socket that \<^verbatim>\<open>connectWebSocket\<close> created, a message on a socket that
  listens (with the parsed value, \<open>None\<close> when \<^verbatim>\<open>JSON.parse\<close> throws), a timer that
  is set and fires, the end of an awaited \<^verbatim>\<open>connect\<close> of a peer connection, a message
  on the peer connection.  An event of something that does not exist changes nothing.
\<close>

datatype bridge_event =
    Connect
  | Disconnect
  | WsOpen nat
  | WsError nat
  | WsClose nat bool
  | WsMessage nat "jsv option" bool nat
  | TimerFired nat
  | RtcConnected nat
  | RtcFailed nat
  | RtcMessage jsv bool nat

fun bridge_step :: "page \<Rightarrow> SocketBridge \<Rightarrow> bridge_event \<Rightarrow> SocketBridge" where
  "bridge_step pg s Connect = bridge_connect pg s"
| "bridge_step pg s Disconnect = disconnect s"
| "bridge_step pg s (WsOpen h) =
     (case map_of (timeout_of s) h of None \<Rightarrow> s | Some t \<Rightarrow> ws_onopen t s)"
| "bridge_step pg s (WsError h) =
     (case map_of (timeout_of s) h of None \<Rightarrow> s | Some t \<Rightarrow> ws_onerror t s)"
| "bridge_step pg s (WsClose h wasClean) =
     (case map_of (timeout_of s) h of None \<Rightarrow> s | Some t \<Rightarrow> ws_onclose wasClean s)"
| "bridge_step pg s (WsMessage h parsed tx now) =
     (if h \<in> set (listening s) then
        (case parsed of None \<Rightarrow> s | Some message \<Rightarrow> handleMessage pg tx now message s)
      else s)"
| "bridge_step pg s (TimerFired t) =
     (case map_of (timers s) t of
        None \<Rightarrow> s
      | Some (ConnectTimeout d) \<Rightarrow> connect_timed_out (clearTimeout t s)
      | Some (Reconnect d) \<Rightarrow> bridge_connect pg (clearTimeout t s))"
| "bridge_step pg s (RtcConnected c) =
     (if c \<in> set (awaiting s) then rtc_connected (s\<lparr>awaiting := removeAll c (awaiting s)\<rparr>) else s)"
| "bridge_step pg s (RtcFailed c) =
     (if c \<in> set (awaiting s) then rtc_failed (s\<lparr>awaiting := removeAll c (awaiting s)\<rparr>) else s)"
| "bridge_step pg s (RtcMessage message tx now) = handleMessage pg tx now message s"

definition bridge_run :: "page \<Rightarrow> bridge_event list \<Rightarrow> SocketBridge \<Rightarrow> SocketBridge" where
  "bridge_run pg evs s = foldl (bridge_step pg) s evs"

subsection \<open>Notions used in the statements about the bridge\<close>

text \<open>The events that complete a connection: they reset the counter of attempts.\<close>

fun completes :: "bridge_event \<Rightarrow> bool" where
  "completes (WsOpen h) = True"
| "completes (RtcConnected c) = True"
| "completes e = False"

fun is_reconnect :: "timer \<Rightarrow> bool" where
  "is_reconnect (Reconnect d) = True"
| "is_reconnect (ConnectTimeout d) = False"

text \<open>The reconnect timers that are set.\<close>

definition pending_reconnects :: "SocketBridge \<Rightarrow> (nat \<times> timer) list" where
  "pending_reconnects s = filter (\<lambda>x. is_reconnect (snd x)) (timers s)"


subsection \<open>A concrete page\<close>

text \<open>
  A page served over HTTP with one registered query, and the configuration of a bridge
  that may reconnect five times.
\<close>

definition demo_page :: page where
  "demo_page = \<lparr>isHttps = False, ws_throws = False,
      queries = (\<lambda>k. if k = Str ''foundry-mcp-bridge.listActors''
                      then Some (\<lambda>a. Inr (Arr [])) else None),
      ToString = (\<lambda>v. case v of Str x \<Rightarrow> x | _ \<Rightarrow> ''undefined'')\<rparr>"

definition demo_config :: BridgeConfig where
  "demo_config = \<lparr>enabled = True, serverHost = ''localhost'', serverPort = 31415,
      namespace = ''/foundry-mcp'', config_reconnectAttempts = 5, reconnectDelay = 1000,
      connectionTimeout = 10, debugLogging = False, connectionType = Some Auto\<rparr>"

text \<open>
  The fields that the backoff depends on; how they move over events that include no
  completed connection; and the bound that every reachable state respects.
\<close>

definition counters :: "SocketBridge \<Rightarrow> nat \<times> nat \<times> nat list" where
  "counters s = (reconnectAttempts s, maxReconnectAttempts s, scheduled s)"

definition advance :: "SocketBridge \<Rightarrow> SocketBridge \<Rightarrow> bool" where
  "advance s s' \<longleftrightarrow>
     maxReconnectAttempts s' = maxReconnectAttempts s \<and>
     reconnectAttempts s \<le> reconnectAttempts s' \<and>
     scheduled s' = scheduled s @ map backoff [reconnectAttempts s..<reconnectAttempts s'] \<and>
     (maxReconnectAttempts s \<le> reconnectAttempts s \<longrightarrow> reconnectAttempts s' = reconnectAttempts s) \<and>
     (reconnectAttempts s \<le> maxReconnectAttempts s \<longrightarrow> reconnectAttempts s' \<le> maxReconnectAttempts s)"

definition bounded :: "nat \<Rightarrow> SocketBridge \<Rightarrow> bool" where
  "bounded n s \<longleftrightarrow> maxReconnectAttempts s = n \<and> reconnectAttempts s \<le> n \<and>
     list_all (\<lambda>d. d \<le> 30000) (scheduled s)"

text \<open>
  Two connection attempts that fail, the second one made by the reconnect timer of the
  first.
\<close>

definition failing_run :: "bridge_event list" where
  "failing_run = [Connect, WsError 2, TimerFired 3, WsError 5]"

text \<open>
  A connection attempt fails (the socket's \<^verbatim>\<open>error\<close> event, then its \<^verbatim>\<open>close\<close>
  event, not clean) and a reconnect is scheduled; before its timer fires,
  \<^verbatim>\<open>connect\<close> is called and the new socket opens; then the server closes the
  connection cleanly.
\<close>

definition reconnected_run :: "bridge_event list" where
  "reconnected_run = [Connect, WsError 2, WsClose 2 False, Connect, WsOpen 6]"

definition stale_run :: "bridge_event list" where
  "stale_run = reconnected_run @ [WsClose 6 True]"

text \<open>Every reconnect timer that is set is the one that \<open>reconnectTimer\<close> holds.\<close>

definition timer_inv :: "SocketBridge \<Rightarrow> bool" where
  "timer_inv s \<longleftrightarrow> list_all (\<lambda>x. reconnectTimer s = Some (fst x)) (pending_reconnects s)"




section \<open>External Service Client: \<^verbatim>\<open>ComfyUIClient\<close>\<close>

datatype external_status = ext_queued | ext_running | ext_complete | ext_failed

text \<open>
  The object that \<^verbatim>\<open>getJobStatusWithProgress\<close> returns.  A number is a rational or
  \<open>None\<close> for \<^verbatim>\<open>NaN\<close>; a field that the object does not have is \<open>None\<close>.
\<close>

record job_progress =
  status :: external_status
  currentStep :: "rat option option"
  totalSteps :: "jsv option"
  estimatedTimeRemaining :: "rat option option"

text \<open>
  What the surroundings decide during one poll: the body of the response to
  \<^verbatim>\<open>GET /history/<id>\<close> and to \<^verbatim>\<open>GET /queue\<close> (\<open>None\<close> when \<^verbatim>\<open>axios.get\<close>
  throws: no connection, a timeout, a status outside 2xx), the value of
  \<^verbatim>\<open>Math.random()\<close>, and the number that a value which is not a number converts to.
  The logger is taken not to throw.
\<close>

record service =
  history_response :: "jsv option"
  queue_response :: "jsv option"
  random :: rat
  coerce :: "jsv \<Rightarrow> rat option"

fun ToNumber :: "service \<Rightarrow> jsv \<Rightarrow> rat option" where
  "ToNumber sv (Num r) = Some r"
| "ToNumber sv v = coerce sv v"

text \<open>\<^verbatim>\<open>Object.keys(v)\<close>; a TypeError (\<open>None\<close>) for \<^verbatim>\<open>null\<close> and \<^verbatim>\<open>undefined\<close>.\<close>

fun Object_keys :: "jsv \<Rightarrow> string list option" where
  "Object_keys Undefined = None"
| "Object_keys Null = None"
| "Object_keys (Obj kvs) = Some (map fst kvs)"
| "Object_keys (Arr xs) = Some (map dec [0..<length xs])"
| "Object_keys (Str s) = Some (map dec [0..<length s])"
| "Object_keys v = Some []"

text \<open>
  \<^verbatim>\<open>q?.map((item) => item[1])\<close>: \<^verbatim>\<open>undefined\<close> for a missing queue, the mapped
  array for an array (a TypeError when an item is \<^verbatim>\<open>null\<close>), a TypeError for
  every other value, which has no function \<^verbatim>\<open>map\<close>.
\<close>

fun ids_of :: "jsv \<Rightarrow> jsv option" where
  "ids_of Undefined = Some Undefined"
| "ids_of Null = Some Undefined"
| "ids_of (Arr xs) = map_option Arr (those (map (\<lambda>item. js_index item 1) xs))"
| "ids_of v = None"

text \<open>\<^verbatim>\<open>xs.find((item) => item[1] === promptId)\<close> on the elements of an array.\<close>

fun find_item :: "string \<Rightarrow> jsv list \<Rightarrow> jsv option" where
  "find_item promptId [] = Some Undefined"
| "find_item promptId (item # xs) =
     (case js_index item 1 of
        None \<Rightarrow> None
      | Some v \<Rightarrow> if v = Str promptId then Some item else find_item promptId xs)"

fun opt_find :: "string \<Rightarrow> jsv \<Rightarrow> jsv option" where
  "opt_find promptId Undefined = Some Undefined"
| "opt_find promptId Null = Some Undefined"
| "opt_find promptId (Arr xs) = find_item promptId xs"
| "opt_find promptId v = None"

text \<open>\<^verbatim>\<open>q && q.some((item) => item[1] === promptId)\<close>, as a condition.\<close>

fun some_item :: "string \<Rightarrow> jsv list \<Rightarrow> bool option" where
  "some_item promptId [] = Some False"
| "some_item promptId (item # xs) =
     (case js_index item 1 of
        None \<Rightarrow> None
      | Some v \<Rightarrow> if v = Str promptId then Some True else some_item promptId xs)"

definition and_some :: "string \<Rightarrow> jsv \<Rightarrow> bool option" where
  "and_some promptId q =
     (if \<not> truthy q then Some False
      else case q of Arr xs \<Rightarrow> some_item promptId xs | _ \<Rightarrow> None)"

text \<open>
  The steps of the workflow of a running item:
  \<^verbatim>\<open>workflow && workflow['5'] && workflow['5'].inputs && workflow['5'].inputs.steps\<close>
  decides whether \<^verbatim>\<open>totalSteps\<close> is taken from the workflow or stays 8.
\<close>

definition workflow_steps :: "jsv \<Rightarrow> jsv" where
  "workflow_steps runningItem =
     (let workflow = (case js_index runningItem 2 of Some w \<Rightarrow> w | None \<Rightarrow> Undefined) in
      if \<not> truthy workflow then Num 8
      else let node = (case js_index workflow 5 of Some n \<Rightarrow> n | None \<Rightarrow> Undefined) in
        if \<not> truthy node then Num 8
        else let inputs = field node ''inputs'' in
          if \<not> truthy inputs then Num 8
          else let steps = field inputs ''steps'' in
            if \<not> truthy steps then Num 8 else steps)"

text \<open>
  The answer for a running item.  \<^verbatim>\<open>currentStep\<close> is
  \<^verbatim>\<open>Math.min(totalSteps, Math.floor(Math.random() * totalSteps) + 1)\<close> and
  \<^verbatim>\<open>estimatedTimeRemaining\<close> is \<^verbatim>\<open>(totalSteps - currentStep) * 18\<close>, in exact
  arithmetic.
\<close>

definition running_info :: "service \<Rightarrow> jsv \<Rightarrow> job_progress" where
  "running_info sv runningItem =
     (let totalSteps = workflow_steps runningItem;
          n = ToNumber sv totalSteps;
          currentStep = map_option (\<lambda>t. min t (of_int (floor (random sv * t)) + 1)) n;
          remaining = (case (n, currentStep) of
                         (Some t, Some c) \<Rightarrow> Some ((t - c) * 18)
                       | _ \<Rightarrow> None)
      in \<lparr>status = ext_running, currentStep = Some currentStep, totalSteps = Some totalSteps,
           estimatedTimeRemaining = Some remaining\<rparr>)"

definition only_status :: "external_status \<Rightarrow> job_progress" where
  "only_status st = \<lparr>status = st, currentStep = None, totalSteps = None,
     estimatedTimeRemaining = None\<rparr>"

text \<open>
  The \<^verbatim>\<open>try\<close> block of \<^verbatim>\<open>getJobStatusWithProgress\<close>: \<open>None\<close> when an exception
  leaves it.  The queue request is made only when the history has nothing; the
  arguments of the log call are evaluated before the queues are searched.
\<close>

definition poll :: "service \<Rightarrow> string \<Rightarrow> job_progress option" where
  "poll sv promptId =
     (case history_response sv of
        None \<Rightarrow> None
      | Some history \<Rightarrow>
          (case Object_keys history of
             None \<Rightarrow> None
           | Some historyKeys \<Rightarrow>
               if truthy history \<and> length historyKeys > 0 then Some (only_status ext_complete)
               else
                 (case queue_response sv of
                    None \<Rightarrow> None
                  | Some queueData \<Rightarrow>
                      (case (js_get queueData ''queue_running'', js_get queueData ''queue_pending'') of
                         (Some queue_running, Some queue_pending) \<Rightarrow>
                           (case (ids_of queue_running, ids_of queue_pending) of
                              (Some runningIds, Some pendingIds) \<Rightarrow>
                                (case opt_find promptId queue_running of
                                   None \<Rightarrow> None
                                 | Some runningItem \<Rightarrow>
                                     if truthy runningItem then Some (running_info sv runningItem)
                                     else
                                       (case and_some promptId queue_pending of
                                          None \<Rightarrow> None
                                        | Some True \<Rightarrow> Some (only_status ext_queued)
                                        | Some False \<Rightarrow> Some (only_status ext_failed)))
                            | _ \<Rightarrow> None)
                       | _ \<Rightarrow> None))))"

text \<open>
  \<^verbatim>\<open>getJobStatusWithProgress(promptId)\<close>: the \<^verbatim>\<open>catch\<close> block answers
  \<^verbatim>\<open>{ status: 'failed' }\<close>.  The result is \<open>Inr\<close> of the object returned, or
  \<open>Inl\<close> of what the function throws.
\<close>

definition getJobStatusWithProgress :: "service \<Rightarrow> string \<Rightarrow> thrown + job_progress" where
  "getJobStatusWithProgress sv promptId =
     (case poll sv promptId of Some info \<Rightarrow> Inr info | None \<Rightarrow> Inr (only_status ext_failed))"

text \<open>\<^verbatim>\<open>getJobStatus(promptId)\<close>\<close>

definition getJobStatus :: "service \<Rightarrow> string \<Rightarrow> thrown + external_status" where
  "getJobStatus sv promptId = map_sum id status (getJobStatusWithProgress sv promptId)"


subsection \<open>Notions used in the statements about the client of the service\<close>

text \<open>The id is among the items of a queue listing.\<close>

definition listed :: "string \<Rightarrow> jsv list \<Rightarrow> bool" where
  "listed promptId xs \<longleftrightarrow> list_ex (\<lambda>item. js_index item 1 = Some (Str promptId)) xs"

text \<open>A listing as the service sends it: every item is an array.\<close>

fun is_array :: "jsv \<Rightarrow> bool" where
  "is_array (Arr xs) = True"
| "is_array v = False"

text \<open>A service that cannot be reached, and one that does not know the job.\<close>

definition unreachable :: service where
  "unreachable = \<lparr>history_response = None, queue_response = None, random = 0,
     coerce = (\<lambda>v. None)\<rparr>"

definition forgotten :: service where
  "forgotten = \<lparr>history_response = Some (Obj []),
     queue_response = Some (Obj [(''queue_running'', Arr [Arr [Num 0, Str ''other'', Obj []]]),
                                 (''queue_pending'', Arr [])]),
     random = 0, coerce = (\<lambda>v. None)\<rparr>"

section \<open>Job Orchestrator\<close>

subsection \<open>The front end: \<^verbatim>\<open>MapGenerationTools\<close>\<close>





subsection \<open>The job table\<close>

text \<open>
  Modelled from the spec: the status \<open>cancelled\<close>, which the declaration
  \<^verbatim>\<open>JobData\<close> of the sources does not have and the \<open>Job\<close> of the specification
  does.  The other six statuses, and the fields of the record, are those of
  \<^verbatim>\<open>JobData\<close>.
\<close>

datatype job_status = queued | generating | processing | complete | failed | expired | cancelled

record job_params =
  prompt :: string
  scene_name :: string
  size :: string
  grid_size :: rat

record JobData =
  job_id :: string
  job_status :: job_status
  created_at :: nat
  started_at :: "nat option"
  completed_at :: "nat option"
  progress_percent :: rat
  current_stage :: string
  job_result :: "jsv option"
  job_error :: "string option"
  attempts :: nat
  max_attempts :: nat
  params :: job_params





section \<open>Properties of the Connection Supervisor\<close>

declare onData_loop.simps [simp del] retry_loop.simps [simp del]

subsection \<open>The receive loop delivers the frames of the stream\<close>

lemma complete_lines_no_newline:
  "newline \<notin> set str \<Longrightarrow> complete_lines acc str = [] \<and> partial_frame acc str = acc @ str"
  by (induction str arbitrary: acc) auto

lemma complete_lines_indexOf:
  "indexOf str newline = Some idx \<Longrightarrow>
     complete_lines acc str = (acc @ take idx str) # complete_lines [] (drop (idx + 1) str) \<and>
     partial_frame acc str = partial_frame [] (drop (idx + 1) str)"
proof (induction str arbitrary: acc idx)
  case Nil
  then show ?case by (simp add: indexOf_def)
next
  case (Cons c cs)
  show ?case
  proof (cases "c = newline")
    case True
    with Cons.prems show ?thesis by (simp add: indexOf_def)
  next
    case False
    with Cons.prems obtain j where j: "indexOf cs newline = Some j" "idx = Suc j"
      by (auto simp: indexOf_def split: if_splits)
    from Cons.IH [OF j(1), of "acc @ [c]"] False j(2) show ?thesis by simp
  qed
qed

lemma indexOf_None: "indexOf str c = None \<longleftrightarrow> c \<notin> set str"
  by (simp add: indexOf_def)

lemma deliver_Nil [simp]: "deliver ev [] s = s"
  by (simp add: deliver_def)

lemma deliver_Cons [simp]: "deliver ev (l # ls) s = deliver ev ls (handle_line ev l s)"
  by (simp add: deliver_def)

lemma deliver_append: "deliver ev (xs @ ys) s = deliver ev ys (deliver ev xs s)"
  by (simp add: deliver_def)

lemma handle_line_buffer_upd:
  "handle_line ev l (s\<lparr>buffer := b\<rparr>) = (handle_line ev l s)\<lparr>buffer := b\<rparr>"
  by (simp add: handle_line_def parse_error_def client_log_def resolve_def reject_def Let_def
      split: option.splits prod.splits)

lemma deliver_buffer_upd:
  "deliver ev ls (s\<lparr>buffer := b\<rparr>) = (deliver ev ls s)\<lparr>buffer := b\<rparr>"
  by (induction ls arbitrary: s) (simp_all add: handle_line_buffer_upd)

lemma onData_loop_frames:
  "onData_loop ev s = (deliver ev (frames (buffer s)) s)\<lparr>buffer := partial_frame [] (buffer s)\<rparr>"
proof (induction ev s rule: onData_loop.induct)
  case (1 ev s)
  show ?case
  proof (cases "indexOf (buffer s) newline")
    case None
    then have "newline \<notin> set (buffer s)" by (simp add: indexOf_None)
    from complete_lines_no_newline [OF this, of "[]"] None show ?thesis
      by (subst onData_loop.simps) (simp add: frames_def)
  next
    case (Some idx)
    let ?line = "trim (take idx (buffer s))"
    let ?s1 = "s\<lparr>buffer := drop (idx + 1) (buffer s)\<rparr>"
    note cl = complete_lines_indexOf [OF Some, of "[]"]
    show ?thesis
    proof (cases "?line = []")
      case True
      from "1.IH"(1) [OF Some refl refl True] Some True cl show ?thesis
        by (subst onData_loop.simps) (simp add: frames_def deliver_buffer_upd)
    next
      case False
      from "1.IH"(2) [OF Some refl refl False] Some False cl show ?thesis
        by (subst onData_loop.simps)
           (simp add: frames_def deliver_buffer_upd handle_line_buffer_upd)
    qed
  qed
qed

lemma onData_frames:
  "onData ev chunk s =
     (deliver ev (frames (buffer s @ chunk)) s)\<lparr>buffer := partial_frame [] (buffer s @ chunk)\<rparr>"
  by (simp add: onData_def onData_loop_frames deliver_buffer_upd)

subsection \<open>One frame and the table of pending requests\<close>

lemma set_update_subset: "set (AList.update k v al) \<subseteq> insert (k, v) (set al)"
  by (induction al) auto

lemma set_delete: "set (AList.delete k al) = {x \<in> set al. fst x \<noteq> k}"
  by (induction al) auto

lemma in_updateD: "(j, q) \<in> set (AList.update k v al) \<Longrightarrow> (j, q) = (k, v) \<or> (j, q) \<in> set al"
  using set_update_subset [of k v al] by auto

lemmas hl_defs = handle_line_def parse_error_def client_log_def resolve_def reject_def



lemma pending_get_Some: "pending_get tbl mid = Some q \<Longrightarrow> \<exists>k. mid = Str k \<and> map_of tbl k = Some q"
  by (cases mid) auto


lemma handle_line_unknown:
  assumes "unknown p s"
  shows "entries p (settled (handle_line ev l s)) = entries p (settled s)"
    and "unknown p (handle_line ev l s)"
proof -
  have "entries p (settled (handle_line ev l s)) = entries p (settled s)
      \<and> unknown p (handle_line ev l s)"
  proof (cases "JSON_parse ev l")
    case None
    with assms show ?thesis by (simp add: hl_defs unknown_def entries_def)
  next
    case (Some msg)
    show ?thesis
    proof (cases "js_get msg ''id''")
      case None
      with Some assms show ?thesis
        by (simp add: hl_defs unknown_def entries_def split: option.splits)
    next
      case mid: (Some mid)
      then obtain err res where f: "js_get msg ''error'' = Some err" "js_get msg ''result'' = Some res"
        by (cases msg) auto
      show ?thesis
      proof (cases "pending_get (pending s) mid")
        case None
        with Some mid f assms show ?thesis
          by (simp add: hl_defs unknown_def entries_def Let_def)
      next
        case q: (Some q)
        then obtain k where k: "mid = Str k" "map_of (pending s) k = Some q"
          by (auto dest: pending_get_Some)
        with assms have "q \<noteq> p"
          by (auto simp: unknown_def image_iff dest!: map_of_SomeD)
        with Some mid f q k assms show ?thesis
          by (auto simp: hl_defs unknown_def entries_def Let_def set_delete)
      qed
    qed
  qed
  then show "entries p (settled (handle_line ev l s)) = entries p (settled s)"
    and "unknown p (handle_line ev l s)" by simp_all
qed


lemma deliver_unknown:
  "unknown p s \<Longrightarrow>
     entries p (settled (deliver ev ls s)) = entries p (settled s) \<and> unknown p (deliver ev ls s)"
  by (induction ls arbitrary: s) (simp_all add: handle_line_unknown)


subsection \<open>Traffic on a channel that is up\<close>


lemma partial_frame_no_newline:
  "newline \<notin> set acc \<Longrightarrow> newline \<notin> set (partial_frame acc str)"
  by (induction str arbitrary: acc) auto






lemma run_Nil [simp]: "run ev [] s = s"
  by (simp add: run_def)

lemma run_Cons [simp]: "run ev (e # evs) s = run ev evs (step ev s e)"
  by (simp add: run_def)






subsection \<open>Loss of the connection\<close>

lemma connect_frame:
  "connect ev s = (r, s') \<Longrightarrow>
     pending s' = pending s \<and> settled s' = settled s \<and> buffer s' = buffer s \<and>
     exited s' = exited s \<and> connects s' = Suc (connects s) \<and> spawned s' = spawned s \<and>
     slept s' = slept s"
  by (auto simp: connect_def client_log_def split: option.splits)

lemma retry_loop_frame:
  "retry_loop ev attempt lastError s = (r, s') \<Longrightarrow>
     pending s' = pending s \<and> settled s' = settled s \<and> buffer s' = buffer s \<and>
     exited s' = exited s \<and> connects s \<le> connects s' \<and> spawned s' = spawned s"
proof (induction ev attempt lastError s arbitrary: r s' rule: retry_loop.induct)
  case (1 ev attempt lastError s)
  show ?case
  proof (cases "attempt < maxAttempts")
    case False
    with "1.prems" show ?thesis by (simp add: retry_loop.simps)
  next
    case True
    let ?s1 = "s\<lparr>slept := slept s @ [delayMs attempt]\<rparr>"
    obtain c s2 where c: "connect ev ?s1 = (c, s2)" by (cases "connect ev ?s1")
    note f = connect_frame [OF c]
    show ?thesis
    proof (cases c)
      case (Inr u)
      with "1.prems" True c f show ?thesis by (simp add: retry_loop.simps)
    next
      case (Inl error)
      let ?s3 = "client_log ''connectWithRetry(): retry failed''
                     [(''attempt'', Num (of_nat (attempt + 1))), (''delayMs'', Num (delayMs attempt)),
                      (''error'', message_of error)] s2"
      from "1.prems" True c Inl have "retry_loop ev (attempt + 1) error ?s3 = (r, s')"
        by (simp add: retry_loop.simps)
      from "1.IH" [OF True refl c [symmetric] Inl this] f show ?thesis
        by (simp add: client_log_def)
    qed
  qed
qed

lemma connectWithRetry_frame:
  "connectWithRetry ev s = (r, s') \<Longrightarrow>
     pending s' = pending s \<and> settled s' = settled s \<and> buffer s' = buffer s \<and>
     exited s' = exited s \<and> connects s < connects s'"
proof -
  assume a: "connectWithRetry ev s = (r, s')"
  obtain c s1 where c: "connect ev s = (c, s1)" by (cases "connect ev s")
  note f = connect_frame [OF c]
  show ?thesis
  proof (cases c)
    case (Inr u)
    with a c f show ?thesis by (simp add: connectWithRetry_def)
  next
    case (Inl e)
    with a c have "retry_loop ev 0 e
        (startBackend ev (client_log ''connectWithRetry(): starting backend'' [] s1)) = (r, s')"
      by (simp add: connectWithRetry_def)
    from retry_loop_frame [OF this] f show ?thesis
      by (simp add: startBackend_def client_log_def Let_def)
  qed
qed

lemma ensure_frame:
  "ensure ev s = (r, s') \<Longrightarrow>
     pending s' = pending s \<and> settled s' = settled s \<and> buffer s' = buffer s \<and>
     exited s' = exited s \<and> connects s \<le> connects s'"
  by (auto simp: ensure_def client_log_def split: if_splits dest!: connectWithRetry_frame)

lemma rejectAll_fold:
  "settled (foldl (\<lambda>s' (k, p). reject p (Rejected err) s') s tbl) =
     settled s @ map (\<lambda>(k, p). (p, Rejected err)) tbl
   \<and> pending (foldl (\<lambda>s' (k, p). reject p (Rejected err) s') s tbl) = pending s
   \<and> exited (foldl (\<lambda>s' (k, p). reject p (Rejected err) s') s tbl) = exited s
   \<and> connects (foldl (\<lambda>s' (k, p). reject p (Rejected err) s') s tbl) = connects s
   \<and> buffer (foldl (\<lambda>s' (k, p). reject p (Rejected err) s') s tbl) = buffer s"
  by (induction tbl arbitrary: s) (auto simp: reject_def)

lemma rejectAll_settled:
  "settled (rejectAll err s) = settled s @ map (\<lambda>(k, p). (p, Rejected err)) (pending s)"
  "pending (rejectAll err s) = []" "socket (rejectAll err s) = None"
  "exited (rejectAll err s) = exited s" "connects (rejectAll err s) = connects s"
  by (simp_all add: rejectAll_def rejectAll_fold)

lemma entries_rejected:
  "distinct (map snd tbl) \<Longrightarrow>
     entries p (map (\<lambda>(k, q). (q, Rejected err)) tbl) = (if p \<in> snd ` set tbl then [Rejected err] else [])"
  by (induction tbl) (auto simp: entries_def image_iff)

lemma entries_append: "entries p (xs @ ys) = entries p xs @ entries p ys"
  by (simp add: entries_def)

lemma entries_Nil: "p \<notin> fst ` set xs \<Longrightarrow> entries p xs = []"
  by (induction xs) (auto simp: entries_def)

lemma send_unknown:
  "q \<noteq> p \<Longrightarrow> unknown p s \<Longrightarrow>
     unknown p (send ev q rid meth args wr s) \<and>
     entries p (settled (send ev q rid meth args wr s)) = entries p (settled s)"
proof -
  assume a: "q \<noteq> p" "unknown p s"
  obtain r s1 where e: "ensure ev s = (r, s1)" by (cases "ensure ev s")
  note f = ensure_frame [OF e]
  show ?thesis
  proof (cases r)
    case (Inl err)
    with e f a show ?thesis
      by (simp add: send_def client_log_def reject_def unknown_def entries_def)
  next
    case (Inr u)
    with e f a show ?thesis
      by (auto simp: send_def client_log_def reject_def unknown_def entries_def Let_def
          set_delete image_iff split: option.splits dest!: in_updateD)
  qed
qed

lemma entries_rejected_none:
  "p \<notin> snd ` set tbl \<Longrightarrow> entries p (map (\<lambda>(k, q). (q, Rejected err)) tbl) = []"
  by (induction tbl) (auto simp: entries_def)

lemma rejectAll_unknown:
  "unknown p s \<Longrightarrow> unknown p (rejectAll err s) \<and>
     entries p (settled (rejectAll err s)) = entries p (settled s)"
  by (simp add: unknown_def rejectAll_settled entries_append entries_rejected_none)

lemma onData_unknown:
  "unknown p s \<Longrightarrow> unknown p (onData ev chunk s) \<and>
     entries p (settled (onData ev chunk s)) = entries p (settled s)"
  using deliver_unknown [of p s ev "frames (buffer s @ chunk)"]
  by (simp add: onData_frames unknown_def)

lemma step_unknown:
  "unknown p s \<Longrightarrow> \<not> is_send_of p e \<Longrightarrow>
     unknown p (step ev s e) \<and> entries p (settled (step ev s e)) = entries p (settled s)"
proof (cases e)
  case (Send q rid meth args wr)
  assume "unknown p s" "\<not> is_send_of p e"
  with Send send_unknown [of q p s ev rid meth args wr] show ?thesis by simp
next
  case (Data chunk)
  assume "unknown p s"
  with Data onData_unknown [of p s ev chunk] show ?thesis by simp
next
  case (SockError err)
  assume "unknown p s"
  then have "unknown p (client_log ''connect(): error'' [(''error'', message_of err)] s)"
    by (simp add: unknown_def client_log_def)
  from rejectAll_unknown [OF this, of err] SockError \<open>unknown p s\<close> show ?thesis
    by (simp add: on_error_def client_log_def)
next
  case SockClose
  assume "unknown p s"
  with SockClose rejectAll_unknown [of p s] show ?thesis by (simp add: on_close_def)
next
  case (ChildExit code)
  assume "unknown p s"
  with ChildExit show ?thesis
    by (simp add: on_exit_def unknown_def client_log_def Let_def)
qed

lemma run_unknown_any:
  "unknown p s \<Longrightarrow> \<forall>e \<in> set evs. \<not> is_send_of p e \<Longrightarrow>
     entries p (settled (run ev evs s)) = entries p (settled s)"
proof (induction evs arbitrary: s)
  case Nil
  then show ?case by simp
next
  case (Cons e evs)
  from step_unknown [of p s e ev] Cons.prems Cons.IH [of "step ev s e"] show ?case by simp
qed

subsection \<open>The states that a client reaches\<close>

text \<open>
  The conditions on the table of pending requests and on the buffer under which the
  statements of this section are made hold in every state that a new client reaches,
  provided that each call of \<^verbatim>\<open>send\<close> comes with the handle of a new promise.
\<close>

lemma distinct_snd_delete: "distinct (map snd al) \<Longrightarrow> distinct (map snd (AList.delete k al))"
  by (induction al) (auto simp: set_delete image_iff)

lemma distinct_snd_update:
  "distinct (map snd al) \<Longrightarrow> p \<notin> snd ` set al \<Longrightarrow> distinct (map snd (AList.update k p al))"
proof (induction al)
  case Nil
  then show ?case by simp
next
  case (Cons x al)
  then show ?case
    by (cases x) (auto simp: image_iff dest!: in_updateD)
qed

lemma snd_delete_subset: "snd ` set (AList.delete k al) \<subseteq> snd ` set al"
  by (auto simp: set_delete)

lemma snd_update_subset: "snd ` set (AList.update k p al) \<subseteq> insert p (snd ` set al)"
  using set_update_subset [of k p al] by force

lemma snd_delete_gone:
  assumes "distinct (map snd al)" and "(k, q) \<in> set al"
  shows "q \<notin> snd ` set (AList.delete k al)"
proof
  assume "q \<in> snd ` set (AList.delete k al)"
  then obtain j where j: "(j, q) \<in> set al" "j \<noteq> k"
    by (auto simp: set_delete)
  from assms(1) have "inj_on snd (set al)" by (simp add: distinct_map)
  from inj_onD [OF this, of "(j, q)" "(k, q)"] j(1) assms(2) have "j = k" by simp
  with j(2) show False by simp
qed

lemma fst_rejected: "fst ` set (map (\<lambda>(k, p). (p, e)) tbl) = snd ` set tbl"
  by (induction tbl) auto

lemma tidy_cong:
  "pending t = pending s \<Longrightarrow> settled t = settled s \<Longrightarrow> buffer t = buffer s \<Longrightarrow>
     tidy U t = tidy U s"
  by (simp add: tidy_def)

lemma tidy_mono: "tidy U s \<Longrightarrow> U \<subseteq> V \<Longrightarrow> tidy V s"
  unfolding tidy_def by blast

lemma tidy_settle:
  assumes "tidy U s" and "(k, q) \<in> set (pending s)"
    and "pending t = AList.delete k (pending s)"
    and "settled t = settled s @ [(q, out)]" and "buffer t = buffer s"
  shows "tidy U t"
proof -
  define A where "A = snd ` set (pending s)"
  define B where "B = fst ` set (settled s)"
  define A' where "A' = snd ` set (AList.delete k (pending s))"
  from assms(1) have d: "distinct (map snd (pending s))" and nl: "newline \<notin> set (buffer s)"
    and AB: "A \<inter> B = {}" "A \<union> B \<subseteq> U"
    by (simp_all add: tidy_def A_def B_def)
  have 1: "A' \<subseteq> A" unfolding A'_def A_def by (rule snd_delete_subset)
  have 2: "q \<notin> A'" unfolding A'_def by (rule snd_delete_gone [OF d assms(2)])
  have 3: "q \<in> A" unfolding A_def using assms(2) by force
  have B': "fst ` set (settled t) = insert q B" by (simp add: assms(4) B_def)
  have P': "snd ` set (pending t) = A'" by (simp add: assms(3) A'_def)
  have 4: "A' \<inter> insert q B = {}" using 1 2 AB(1) by blast
  have 5: "A' \<union> insert q B \<subseteq> U" using 1 3 AB(2) by blast
  have 6: "distinct (map snd (pending t))" unfolding assms(3) using d by (rule distinct_snd_delete)
  have 7: "newline \<notin> set (buffer t)" unfolding assms(5) by (rule nl)
  show ?thesis unfolding tidy_def P' B' using 4 5 6 7 by (intro conjI)
qed

lemma tidy_register:
  assumes "tidy U s" and "p \<notin> U"
    and "pending t = AList.update rid p (pending s)"
    and "settled t = settled s" and "buffer t = buffer s"
  shows "tidy (insert p U) t"
proof -
  define A where "A = snd ` set (pending s)"
  define B where "B = fst ` set (settled s)"
  define A' where "A' = snd ` set (AList.update rid p (pending s))"
  from assms(1) have d: "distinct (map snd (pending s))" and nl: "newline \<notin> set (buffer s)"
    and AB: "A \<inter> B = {}" "A \<union> B \<subseteq> U"
    by (simp_all add: tidy_def A_def B_def)
  from AB(2) assms(2) have fresh: "p \<notin> A" "p \<notin> B" by blast+
  have 1: "A' \<subseteq> insert p A" unfolding A'_def A_def by (rule snd_update_subset)
  have B': "fst ` set (settled t) = B" by (simp add: assms(4) B_def)
  have P': "snd ` set (pending t) = A'" by (simp add: assms(3) A'_def)
  have 4: "A' \<inter> B = {}" using 1 fresh AB(1) by blast
  have 5: "A' \<union> B \<subseteq> insert p U" using 1 AB(2) by blast
  have 6: "distinct (map snd (pending t))" unfolding assms(3)
    using d fresh(1) unfolding A_def by (rule distinct_snd_update)
  have 7: "newline \<notin> set (buffer t)" unfolding assms(5) by (rule nl)
  show ?thesis unfolding tidy_def P' B' using 4 5 6 7 by (intro conjI)
qed

lemma tidy_fail:
  assumes "tidy U s" and "p \<notin> U"
    and "pending t = pending s"
    and "settled t = settled s @ [(p, out)]" and "buffer t = buffer s"
  shows "tidy (insert p U) t"
proof -
  define A where "A = snd ` set (pending s)"
  define B where "B = fst ` set (settled s)"
  from assms(1) have d: "distinct (map snd (pending s))" and nl: "newline \<notin> set (buffer s)"
    and AB: "A \<inter> B = {}" "A \<union> B \<subseteq> U"
    by (simp_all add: tidy_def A_def B_def)
  from AB(2) assms(2) have fresh: "p \<notin> A" "p \<notin> B" by blast+
  have B': "fst ` set (settled t) = insert p B" by (simp add: assms(4) B_def)
  have P': "snd ` set (pending t) = A" by (simp add: assms(3) A_def)
  have 4: "A \<inter> insert p B = {}" using fresh AB(1) by blast
  have 5: "A \<union> insert p B \<subseteq> insert p U" using AB(2) by blast
  have 6: "distinct (map snd (pending t))" unfolding assms(3) by (rule d)
  have 7: "newline \<notin> set (buffer t)" unfolding assms(5) by (rule nl)
  show ?thesis unfolding tidy_def P' B' using 4 5 6 7 by (intro conjI)
qed

lemma tidy_refuse:
  assumes "tidy U s" and "p \<notin> U"
    and "pending t = AList.delete rid (AList.update rid p (pending s))"
    and "settled t = settled s @ [(p, out)]" and "buffer t = buffer s"
  shows "tidy (insert p U) t"
proof -
  define A where "A = snd ` set (pending s)"
  define B where "B = fst ` set (settled s)"
  define A' where "A' = snd ` set (AList.delete rid (AList.update rid p (pending s)))"
  from assms(1) have d: "distinct (map snd (pending s))" and nl: "newline \<notin> set (buffer s)"
    and AB: "A \<inter> B = {}" "A \<union> B \<subseteq> U"
    by (simp_all add: tidy_def A_def B_def)
  from AB(2) assms(2) have fresh: "p \<notin> A" "p \<notin> B" by blast+
  have d1: "distinct (map snd (AList.update rid p (pending s)))"
    using d fresh(1) unfolding A_def by (rule distinct_snd_update)
  have 0: "A' \<subseteq> A"
  proof
    fix x assume "x \<in> A'"
    then obtain j where j: "(j, x) \<in> set (AList.update rid p (pending s))" "j \<noteq> rid"
      unfolding A'_def by (auto simp: set_delete)
    from in_updateD [OF j(1)] j(2) have "(j, x) \<in> set (pending s)" by simp
    then show "x \<in> A" unfolding A_def by force
  qed
  have B': "fst ` set (settled t) = insert p B" by (simp add: assms(4) B_def)
  have P': "snd ` set (pending t) = A'" by (simp add: assms(3) A'_def)
  have 4: "A' \<inter> insert p B = {}" using 0 fresh AB(1) by blast
  have 5: "A' \<union> insert p B \<subseteq> insert p U" using 0 AB(2) by blast
  have 6: "distinct (map snd (pending t))" unfolding assms(3) using d1 by (rule distinct_snd_delete)
  have 7: "newline \<notin> set (buffer t)" unfolding assms(5) by (rule nl)
  show ?thesis unfolding tidy_def P' B' using 4 5 6 7 by (intro conjI)
qed

lemma handle_line_shape:
  "buffer (handle_line ev l s) = buffer s \<and>
   ((pending (handle_line ev l s) = pending s \<and> settled (handle_line ev l s) = settled s) \<or>
    (\<exists>k q out. (k, q) \<in> set (pending s) \<and>
       pending (handle_line ev l s) = AList.delete k (pending s) \<and>
       settled (handle_line ev l s) = settled s @ [(q, out)]))"
proof (cases "JSON_parse ev l")
  case None
  then show ?thesis by (simp add: hl_defs)
next
  case (Some msg)
  show ?thesis
  proof (cases "js_get msg ''id''")
    case None
    with Some show ?thesis by (simp add: hl_defs split: option.splits)
  next
    case mid: (Some mid)
    then obtain err res where f: "js_get msg ''error'' = Some err" "js_get msg ''result'' = Some res"
      by (cases msg) auto
    show ?thesis
    proof (cases "pending_get (pending s) mid")
      case None
      with Some mid f show ?thesis by (simp add: hl_defs Let_def)
    next
      case q: (Some q)
      then obtain k where k: "mid = Str k" "map_of (pending s) k = Some q"
        by (auto dest: pending_get_Some)
      then have in_tbl: "(k, q) \<in> set (pending s)" by (auto dest: map_of_SomeD)
      have b: "buffer (handle_line ev l s) = buffer s"
        using Some mid f q k by (simp add: hl_defs Let_def)
      have p: "pending (handle_line ev l s) = AList.delete k (pending s)"
        using Some mid f q k by (simp add: hl_defs Let_def)
      have "\<exists>out. settled (handle_line ev l s) = settled s @ [(q, out)]"
        using Some mid f q k by (simp add: hl_defs Let_def)
      with b p in_tbl show ?thesis by blast
    qed
  qed
qed

lemma tidy_handle_line: "tidy U s \<Longrightarrow> tidy U (handle_line ev l s)"
proof -
  assume t: "tidy U s"
  from handle_line_shape [of ev l s]
  have b: "buffer (handle_line ev l s) = buffer s"
    and c: "(pending (handle_line ev l s) = pending s \<and> settled (handle_line ev l s) = settled s) \<or>
      (\<exists>k q out. (k, q) \<in> set (pending s) \<and>
         pending (handle_line ev l s) = AList.delete k (pending s) \<and>
         settled (handle_line ev l s) = settled s @ [(q, out)])"
    by blast+
  from c show ?thesis
  proof
    assume "pending (handle_line ev l s) = pending s \<and> settled (handle_line ev l s) = settled s"
    then have "tidy U (handle_line ev l s) = tidy U s" using b by (intro tidy_cong) simp_all
    with t show ?thesis by simp
  next
    assume "\<exists>k q out. (k, q) \<in> set (pending s) \<and>
         pending (handle_line ev l s) = AList.delete k (pending s) \<and>
         settled (handle_line ev l s) = settled s @ [(q, out)]"
    then obtain k q out where "(k, q) \<in> set (pending s)"
      "pending (handle_line ev l s) = AList.delete k (pending s)"
      "settled (handle_line ev l s) = settled s @ [(q, out)]" by blast
    from tidy_settle [OF t this b] show ?thesis .
  qed
qed

lemma tidy_deliver: "tidy U s \<Longrightarrow> tidy U (deliver ev ls s)"
  by (induction ls arbitrary: s) (simp_all add: tidy_handle_line)

lemma tidy_onData: "tidy U s \<Longrightarrow> tidy U (onData ev chunk s)"
proof -
  assume "tidy U s"
  from tidy_deliver [OF this, of ev "frames (buffer s @ chunk)"]
  have "tidy U (deliver ev (frames (buffer s @ chunk)) s)" .
  moreover have "newline \<notin> set (partial_frame [] (buffer s @ chunk))"
    by (rule partial_frame_no_newline) simp
  ultimately show ?thesis
    by (simp add: onData_frames tidy_def)
qed

lemma tidy_rejectAll: "tidy U s \<Longrightarrow> tidy U (rejectAll err s)"
proof -
  assume t: "tidy U s"
  have b: "buffer (rejectAll err s) = buffer s" by (simp add: rejectAll_def rejectAll_fold)
  have p: "pending (rejectAll err s) = []" by (simp add: rejectAll_settled)
  have "fst ` set (settled (rejectAll err s)) =
      fst ` set (settled s) \<union> fst ` set (map (\<lambda>(k, p). (p, Rejected err)) (pending s))"
    by (simp add: rejectAll_settled image_Un)
  then have s: "fst ` set (settled (rejectAll err s)) = fst ` set (settled s) \<union> snd ` set (pending s)"
    by (simp only: fst_rejected)
  from t have "snd ` set (pending s) \<union> fst ` set (settled s) \<subseteq> U" "newline \<notin> set (buffer s)"
    by (simp_all add: tidy_def)
  then show ?thesis unfolding tidy_def p s b by auto
qed

lemma send_shape:
  "buffer (send ev p rid meth args wr s) = buffer s \<and>
   ((pending (send ev p rid meth args wr s) = AList.update rid p (pending s) \<and>
     settled (send ev p rid meth args wr s) = settled s) \<or>
    (\<exists>out. pending (send ev p rid meth args wr s) = pending s \<and>
       settled (send ev p rid meth args wr s) = settled s @ [(p, out)]) \<or>
    (\<exists>out. pending (send ev p rid meth args wr s) = AList.delete rid (AList.update rid p (pending s)) \<and>
       settled (send ev p rid meth args wr s) = settled s @ [(p, out)]))"
proof -
  obtain r s1 where e: "ensure ev s = (r, s1)" by (cases "ensure ev s")
  from ensure_frame [OF e]
  have f: "pending s1 = pending s" "settled s1 = settled s" "buffer s1 = buffer s" by simp_all
  show ?thesis
  proof (cases r)
    case (Inl err)
    then show ?thesis using e f by (simp add: send_def reject_def client_log_def)
  next
    case (Inr u)
    show ?thesis
    proof (cases "socket s1")
      case None
      then show ?thesis using e f Inr by (simp add: send_def reject_def client_log_def Let_def)
    next
      case (Some k)
      then show ?thesis using e f Inr
        by (cases wr) (simp_all add: send_def reject_def client_log_def Let_def)
    qed
  qed
qed

lemma tidy_send: "tidy U s \<Longrightarrow> p \<notin> U \<Longrightarrow> tidy (insert p U) (send ev p rid meth args wr s)"
proof -
  assume t: "tidy U s" and p: "p \<notin> U"
  let ?t = "send ev p rid meth args wr s"
  from send_shape [of ev p rid meth args wr s]
  have b: "buffer ?t = buffer s"
    and c: "(pending ?t = AList.update rid p (pending s) \<and> settled ?t = settled s) \<or>
      (\<exists>out. pending ?t = pending s \<and> settled ?t = settled s @ [(p, out)]) \<or>
      (\<exists>out. pending ?t = AList.delete rid (AList.update rid p (pending s)) \<and>
         settled ?t = settled s @ [(p, out)])"
    by blast+
  from c consider
      (registered) "pending ?t = AList.update rid p (pending s)" "settled ?t = settled s"
    | (failed) out where "pending ?t = pending s" "settled ?t = settled s @ [(p, out)]"
    | (refused) out where "pending ?t = AList.delete rid (AList.update rid p (pending s))"
        "settled ?t = settled s @ [(p, out)]"
    by blast
  then show ?thesis
  proof cases
    case registered
    from tidy_register [OF t p registered b] show ?thesis .
  next
    case failed
    from tidy_fail [OF t p failed b] show ?thesis .
  next
    case refused
    from tidy_refuse [OF t p refused b] show ?thesis .
  qed
qed

lemma tidy_on_exit: "tidy U s \<Longrightarrow> tidy U (on_exit code s)"
  by (simp add: tidy_def on_exit_def client_log_def Let_def)

lemma tidy_client_log: "tidy U s \<Longrightarrow> tidy U (client_log msg meta s)"
  by (simp add: tidy_def client_log_def)

lemma tidy_step: "tidy U s \<Longrightarrow> set (handles [e]) \<inter> U = {} \<Longrightarrow> tidy (U \<union> set (handles [e])) (step ev s e)"
proof -
  assume t: "tidy U s" and h: "set (handles [e]) \<inter> U = {}"
  show ?thesis
  proof (cases "exited s = None")
    case False
    then have "step ev s e = s" by simp
    with t show ?thesis by (auto intro: tidy_mono)
  next
    case True
    show ?thesis
    proof (cases e)
      case (Send p rid meth args wr)
      with h have "p \<notin> U" by simp
      from tidy_send [OF t this, of ev rid meth args wr] Send True show ?thesis by simp
    next
      case (Data chunk)
      with tidy_onData [OF t, of ev chunk] True show ?thesis by simp
    next
      case (SockError err)
      from tidy_rejectAll [OF tidy_client_log [OF t]] SockError True
      show ?thesis by (simp add: on_error_def)
    next
      case SockClose
      from tidy_rejectAll [OF t] SockClose True show ?thesis by (simp add: on_close_def)
    next
      case (ChildExit code)
      from tidy_on_exit [OF t, of code] ChildExit True show ?thesis by simp
    qed
  qed
qed

lemma handles_Cons: "handles (e # evs) = handles [e] @ handles evs"
  by (cases e) simp_all

lemma tidy_run:
  "tidy U s \<Longrightarrow> distinct (handles evs) \<Longrightarrow> set (handles evs) \<inter> U = {} \<Longrightarrow>
     tidy (U \<union> set (handles evs)) (run ev evs s)"
proof (induction evs arbitrary: U s)
  case Nil
  then show ?case by simp
next
  case (Cons e evs)
  from Cons.prems(2,3) have d: "distinct (handles evs)"
    and h1: "set (handles [e]) \<inter> U = {}"
    and h2: "set (handles evs) \<inter> (U \<union> set (handles [e])) = {}"
    unfolding handles_Cons [of e evs] by auto
  from Cons.IH [OF tidy_step [OF Cons.prems(1) h1] d h2]
  have "tidy (U \<union> set (handles [e]) \<union> set (handles evs)) (run ev evs (step ev s e))" .
  moreover have "U \<union> set (handles [e]) \<union> set (handles evs) = U \<union> set (handles (e # evs))"
    unfolding handles_Cons [of e evs] by auto
  ultimately show ?case by (simp only: run_Cons)
qed

lemma tidy_reachable:
  "distinct (handles evs) \<Longrightarrow> tidy (set (handles evs)) (run ev evs new_client)"
proof -
  assume d: "distinct (handles evs)"
  have "tidy {} new_client" by (simp add: tidy_def new_client_def)
  from tidy_run [OF this d, of ev] show ?thesis by simp
qed

lemma reachable_tidy:
  assumes "distinct (handles evs)"
  shows "distinct (map snd (pending (run ev evs new_client)))"
    and "\<forall>p \<in> snd ` set (pending (run ev evs new_client)).
           p \<notin> fst ` set (settled (run ev evs new_client))"
    and "newline \<notin> set (buffer (run ev evs new_client))"
    and "p \<notin> set (handles evs) \<Longrightarrow> p \<notin> snd ` set (pending (run ev evs new_client))"
proof -
  from tidy_reachable [OF assms, of ev]
  have t: "distinct (map snd (pending (run ev evs new_client)))"
    "snd ` set (pending (run ev evs new_client)) \<inter> fst ` set (settled (run ev evs new_client)) = {}"
    "snd ` set (pending (run ev evs new_client)) \<union> fst ` set (settled (run ev evs new_client))
       \<subseteq> set (handles evs)"
    "newline \<notin> set (buffer (run ev evs new_client))"
    unfolding tidy_def by blast+
  from t(1) show "distinct (map snd (pending (run ev evs new_client)))" .
  from t(2) show "\<forall>p \<in> snd ` set (pending (run ev evs new_client)).
           p \<notin> fst ` set (settled (run ev evs new_client))" by blast
  from t(4) show "newline \<notin> set (buffer (run ev evs new_client))" .
  from t(3) show "p \<notin> set (handles evs) \<Longrightarrow> p \<notin> snd ` set (pending (run ev evs new_client))"
    by blast
qed

subsection \<open>The pending calls when the connection is lost\<close>

text \<open>
  Claim C2.  When the \<^verbatim>\<open>error\<close> or the \<^verbatim>\<open>close\<close> event of the socket reaches a
  client in which each pending entry belongs to a different call that has not been
  settled, then the table of pending requests is empty and the socket reference is
  cleared afterwards; every call that was pending is rejected with the error of the loss
  (the error of the \<^verbatim>\<open>error\<close> event, or "Backend disconnected" for \<^verbatim>\<open>close\<close>), and
  that rejection is the only settlement its promise ever sees, whatever events follow
  (the \<^verbatim>\<open>close\<close> after an \<^verbatim>\<open>error\<close>, late frames, other calls); no other promise
  is touched; and the next call of \<^verbatim>\<open>send\<close> does not find a socket, so that it makes
  at least one connection attempt before it does anything else.
\<close>

theorem connection_lost_rejects_pending:
  assumes "exited s = None" and "lost e = Some err"
    and "distinct (map snd (pending s))"
    and "\<forall>p \<in> snd ` set (pending s). p \<notin> fst ` set (settled s)"
  shows "pending (step ev s e) = [] \<and> socket (step ev s e) = None \<and>
         (\<forall>p \<in> snd ` set (pending s). \<forall>evs. (\<forall>x \<in> set evs. \<not> is_send_of p x) \<longrightarrow>
            entries p (settled (run ev evs (step ev s e))) = [Rejected err]) \<and>
         (\<forall>p. p \<notin> snd ` set (pending s) \<longrightarrow>
            entries p (settled (step ev s e)) = entries p (settled s)) \<and>
         (\<forall>q rid meth args wr.
            connects (step ev s e) < connects (send ev q rid meth args wr (step ev s e)))"
proof -
  define s0 where "s0 = (case e of SockError x \<Rightarrow>
      client_log ''connect(): error'' [(''error'', message_of x)] s | _ \<Rightarrow> s)"
  have st: "step ev s e = rejectAll err s0"
    using assms(1,2) by (cases e) (simp_all add: s0_def on_error_def on_close_def)
  have s0: "pending s0 = pending s" "settled s0 = settled s"
    by (cases e; simp add: s0_def client_log_def)+
  have a: "pending (step ev s e) = []" "socket (step ev s e) = None"
    unfolding st by (simp_all add: rejectAll_settled)
  have b: "entries p (settled (run ev evs (step ev s e))) = [Rejected err]"
    if p: "p \<in> snd ` set (pending s)" and evs: "\<forall>x \<in> set evs. \<not> is_send_of p x" for p evs
  proof -
    have "unknown p (step ev s e)" unfolding unknown_def a by simp
    from run_unknown_any [OF this evs]
    have "entries p (settled (run ev evs (step ev s e))) = entries p (settled (step ev s e))" .
    also have "\<dots> = entries p (settled s) @ [Rejected err]"
      unfolding st using p assms(3)
      by (simp add: rejectAll_settled s0 entries_append entries_rejected)
    also have "entries p (settled s) = []"
      using p assms(4) by (auto intro: entries_Nil)
    finally show ?thesis by simp
  qed
  have c: "entries p (settled (step ev s e)) = entries p (settled s)"
    if "p \<notin> snd ` set (pending s)" for p
    unfolding st using that
    by (simp add: rejectAll_settled s0 entries_append entries_rejected_none)
  have d: "connects (step ev s e) < connects (send ev q rid meth args wr (step ev s e))"
    for q rid meth args wr
  proof -
    let ?s = "step ev s e"
    let ?l = "client_log ''ensure(): connecting to backend'' [] ?s"
    obtain r s1 where e1: "connectWithRetry ev ?l = (r, s1)" by (cases "connectWithRetry ev ?l")
    have en: "ensure ev ?s = (r, s1)"
      using a e1 by (simp add: ensure_def)
    from connectWithRetry_frame [OF e1] have lt: "connects ?s < connects s1"
      by (simp add: client_log_def)
    show ?thesis
      using en lt
      by (cases r) (auto simp: send_def client_log_def reject_def Let_def split: option.splits)
  qed
  from a b c d show ?thesis by blast
qed

theorem connection_lost_rejects_pending_witness:
  "exited busy_client = None \<and> lost (SockError (ErrorObj ''read ECONNRESET'')) = Some (ErrorObj ''read ECONNRESET'') \<and>
   distinct (map snd (pending busy_client)) \<and> settled busy_client = [] \<and>
   pending (step demo_env busy_client (SockError (ErrorObj ''read ECONNRESET''))) = [] \<and>
   socket (step demo_env busy_client (SockError (ErrorObj ''read ECONNRESET''))) = None \<and>
   entries 1 (settled (run demo_env [SockClose, Data (''A'' @ [newline])]
      (step demo_env busy_client (SockError (ErrorObj ''read ECONNRESET''))))) =
     [Rejected (ErrorObj ''read ECONNRESET'')]"
proof -
  have h1: "exited busy_client = None"
    by (simp add: busy_client_def demo_client_def new_client_def)
  have h2: "lost (SockError (ErrorObj ''read ECONNRESET'')) = Some (ErrorObj ''read ECONNRESET'')"
    by simp
  have h3: "distinct (map snd (pending busy_client))"
    by (simp add: busy_client_def)
  have h4: "\<forall>p \<in> snd ` set (pending busy_client). p \<notin> fst ` set (settled busy_client)"
    by (simp add: busy_client_def demo_client_def new_client_def)
  have p: "1 \<in> snd ` set (pending busy_client)"
    by (simp add: busy_client_def)
  have evs: "\<forall>x \<in> set [SockClose, Data (''A'' @ [newline])]. \<not> is_send_of 1 x"
    by simp
  have h5: "settled busy_client = []"
    by (simp add: busy_client_def demo_client_def new_client_def)
  from connection_lost_rejects_pending [OF h1 h2 h3 h4, of demo_env] p evs h1 h2 h3 h5
  show ?thesis by blast
qed

subsection \<open>The retry loop\<close>







subsection \<open>Exit of the backend\<close>

lemma run_exited: "exited s \<noteq> None \<Longrightarrow> run ev evs s = s"
  by (induction evs) simp_all

text \<open>
  Claim C7, as the code has it.  The handler of the child's exit forgets the child and
  starts no other.  On the exit code 0 it writes a log line and ends the wrapper's own
  process with code 0, after which no event is handled any more.  On another exit code it
  writes a log line with the code and goes on running.  When a signal ended the child
  (the code is \<^verbatim>\<open>null\<close>) it goes on running and writes nothing.
\<close>

theorem on_exit_spec:
  "backendProcess (on_exit code s) = None \<and> spawned (on_exit code s) = spawned s \<and>
   connects (on_exit code s) = connects s \<and> socket (on_exit code s) = socket s \<and>
   pending (on_exit code s) = pending s \<and> settled (on_exit code s) = settled s \<and>
   (code = Some 0 \<longrightarrow>
      exited (on_exit code s) = Some 0 \<and>
      logged (on_exit code s) = logged s @
        [(''startBackend(): backend exited cleanly (likely lock failure), exiting wrapper'', [])] \<and>
      (\<forall>ev evs. run ev evs (on_exit code s) = on_exit code s)) \<and>
   (\<forall>c. code = Some c \<and> c \<noteq> 0 \<longrightarrow>
      exited (on_exit code s) = exited s \<and>
      logged (on_exit code s) = logged s @
        [(''startBackend(): backend exited unexpectedly'', [(''exitCode'', Num (of_int c))])]) \<and>
   (code = None \<longrightarrow> on_exit code s = s\<lparr>backendProcess := None\<rparr>)"
proof -
  have "run ev evs (on_exit (Some 0) s) = on_exit (Some 0) s" for ev evs
    by (rule run_exited) (simp add: on_exit_def client_log_def)
  then show ?thesis
    by (auto simp: on_exit_def client_log_def Let_def)
qed

theorem on_exit_spec_witness:
  "exited (on_exit (Some 0) demo_client) = Some 0 \<and>
   run demo_env [Send 1 ''a'' ''list_tools'' (Obj []) None] (on_exit (Some 0) demo_client) =
     on_exit (Some 0) demo_client \<and>
   exited (on_exit (Some 1) demo_client) = None \<and>
   logged (on_exit (Some 1) demo_client) =
     [(''startBackend(): backend exited unexpectedly'', [(''exitCode'', Num 1)])] \<and>
   on_exit None demo_client = demo_client\<lparr>backendProcess := None\<rparr>"
  using on_exit_spec [of "Some 0" demo_client] on_exit_spec [of "Some 1" demo_client]
    on_exit_spec [of None demo_client]
  by (simp add: demo_client_def new_client_def)

text \<open>
  The claim as it was stated says that the exit is logged also when a signal ended the
  child.  The handler tests \<^verbatim>\<open>code !== null\<close> before it logs: after a kill by a
  signal the log is what it was.
\<close>

theorem on_exit_signal_counterexample:
  "logged (on_exit None demo_client) = logged demo_client \<and>
   exited (on_exit None demo_client) = None"
  by (simp add: on_exit_def demo_client_def new_client_def)

section \<open>Properties of the Dual-Transport Bridge\<close>

subsection \<open>Backoff\<close>

lemma bridge_run_Nil [simp]: "bridge_run pg [] s = s"
  by (simp add: bridge_run_def)

lemma bridge_run_Cons [simp]: "bridge_run pg (e # evs) s = bridge_run pg evs (bridge_step pg s e)"
  by (simp add: bridge_run_def)

lemma bridge_run_append: "bridge_run pg (xs @ ys) s = bridge_run pg ys (bridge_run pg xs s)"
  by (simp add: bridge_run_def)

lemma clearTimeout_counters [simp]: "counters (clearTimeout h s) = counters s"
  by (simp add: counters_def clearTimeout_def)

lemma scheduleReconnect_counters:
  "counters (scheduleReconnect s) =
     (if reconnectAttempts s < maxReconnectAttempts s
      then (Suc (reconnectAttempts s), maxReconnectAttempts s,
            scheduled s @ [backoff (reconnectAttempts s)])
      else counters s)"
  by (auto simp: counters_def scheduleReconnect_def clearTimeout_def Let_def split: option.splits)

lemma bridge_connect_counters [simp]: "counters (bridge_connect pg s) = counters s"
  by (simp add: counters_def bridge_connect_def connectWebRTC_def connectWebSocket_def
      clearTimeout_def Let_def)

lemma disconnect_counters [simp]: "counters (disconnect s) = counters s"
  by (simp add: counters_def disconnect_def clearTimeout_def Let_def split: option.splits)

lemma sendMessage_counters [simp]: "counters (sendMessage tx m s) = counters s"
  by (simp add: counters_def sendMessage_def)

lemma handleMessage_counters [simp]: "counters (handleMessage pg tx now m s) = counters s"
  by (simp add: handleMessage_def split: option.splits) (simp add: counters_def)

lemma counters_state [simp]:
  "counters (s\<lparr>connectionState := c\<rparr>) = counters s"
  "counters (s\<lparr>awaiting := a\<rparr>) = counters s"
  by (simp_all add: counters_def)

lemma advance_same: "counters s' = counters s \<Longrightarrow> advance s s'"
  by (simp add: counters_def advance_def)

lemma advance_schedule: "counters s1 = counters s \<Longrightarrow> advance s (scheduleReconnect s1)"
  using scheduleReconnect_counters [of s1]
  by (auto simp: counters_def advance_def split: if_splits)

lemma advance_trans: "advance s s' \<Longrightarrow> advance s' s'' \<Longrightarrow> advance s s''"
proof -
  assume a: "advance s s'" and b: "advance s' s''"
  from a b have le: "reconnectAttempts s \<le> reconnectAttempts s'"
    "reconnectAttempts s' \<le> reconnectAttempts s''" by (simp_all add: advance_def)
  then obtain k where k: "reconnectAttempts s'' = reconnectAttempts s' + k"
    using le_Suc_ex by blast
  have "[reconnectAttempts s..<reconnectAttempts s''] =
      [reconnectAttempts s..<reconnectAttempts s'] @ [reconnectAttempts s'..<reconnectAttempts s'']"
    unfolding k using le(1) by (rule upt_add_eq_append)
  with a b show ?thesis by (auto simp: advance_def)
qed

lemma step_advance: "\<not> completes e \<Longrightarrow> advance s (bridge_step pg s e)"
proof (cases e)
  case (TimerFired t)
  then show ?thesis
    by (auto simp: connect_timed_out_def intro!: advance_same split: option.splits timer.splits)
next
  case (WsError h)
  then show ?thesis
    by (auto simp: ws_onerror_def intro!: advance_same advance_schedule split: option.splits)
next
  case (WsClose h wasClean)
  then show ?thesis
    by (auto simp: ws_onclose_def Let_def intro!: advance_same advance_schedule split: option.splits)
next
  case (RtcFailed c)
  then show ?thesis
    by (auto simp: rtc_failed_def intro!: advance_same advance_schedule)
qed (auto intro!: advance_same split: option.splits)

lemma run_advance: "\<not> list_ex completes evs \<Longrightarrow> advance s (bridge_run pg evs s)"
proof (induction evs arbitrary: s)
  case Nil
  then show ?case by (simp add: advance_def)
next
  case (Cons e evs)
  from Cons.prems have "\<not> completes e" "\<not> list_ex completes evs" by simp_all
  from step_advance [OF this(1), of s pg] Cons.IH [OF this(2), of "bridge_step pg s e"]
  show ?case by (auto intro: advance_trans)
qed

lemma backoff_props:
  "backoff a \<le> 30000 \<and> backoff 0 = 1000 \<and> backoff (Suc a) = min (2 * backoff a) 30000 \<and>
   backoff a \<le> backoff (Suc a)"
  by (simp add: backoff_def min_def)

lemma backoff_mono: "a \<le> b \<Longrightarrow> backoff a \<le> backoff b"
proof -
  assume "a \<le> b"
  then have "(1000::nat) * 2 ^ a \<le> 1000 * 2 ^ b"
    by (simp add: power_increasing)
  then show ?thesis
    unfolding backoff_def by (intro min.mono) simp_all
qed

lemma sorted_backoff: "sorted (map backoff [a..<b])"
  by (simp add: sorted_map sorted_wrt_iff_nth_less backoff_mono)

lemma step_bounded: "bounded n s \<Longrightarrow> bounded n (bridge_step pg s e)"
proof (cases "completes e")
  case False
  assume b: "bounded n s"
  from step_advance [OF False, of s pg] b show ?thesis
    by (auto simp: bounded_def advance_def list_all_iff backoff_def)
next
  case True
  assume b: "bounded n s"
  from True b show ?thesis
    by (cases e)
       (auto simp: bounded_def ws_onopen_def rtc_connected_def setupEventHandlers_def
          clearTimeout_def split: option.splits)
qed

lemma run_bounded: "bounded n s \<Longrightarrow> bounded n (bridge_run pg evs s)"
  by (induction evs arbitrary: s) (simp_all add: step_bounded)

lemma new_bounded: "bounded (config_reconnectAttempts cfg) (new_bridge cfg)"
  by (simp add: bounded_def new_bridge_def)

text \<open>
  Claim C4.  In every run of a bridge from its construction, each delay of a scheduled
  reconnect is at most 30000 ms and the counter of attempts never exceeds the configured
  ceiling.  Over any stretch of events in which no connection is completed (consecutive
  failed attempts), the delays scheduled are \<open>backoff a, backoff (a + 1), \<dots>\<close> for the
  consecutive values of the counter: 1000 ms at first, each the double of the one before,
  cut at 30000 ms, hence non-decreasing; there are at most as many of them as the
  ceiling; and once the counter has reached the ceiling no reconnect is scheduled any
  more, whatever happens (a call of \<^verbatim>\<open>connect\<close> included), until a connection is
  completed.
\<close>

theorem reconnect_backoff:
  "list_all (\<lambda>d. d \<le> 30000) (scheduled (bridge_run pg evs (new_bridge cfg))) \<and>
   reconnectAttempts (bridge_run pg evs (new_bridge cfg)) \<le> config_reconnectAttempts cfg \<and>
   (\<forall>tr. \<not> list_ex completes tr \<longrightarrow>
      length (drop (length (scheduled (bridge_run pg evs (new_bridge cfg))))
                (scheduled (bridge_run pg tr (bridge_run pg evs (new_bridge cfg)))))
        \<le> config_reconnectAttempts cfg) \<and>
   (\<forall>s tr. \<not> list_ex completes tr \<longrightarrow>
      scheduled (bridge_run pg tr s) =
        scheduled s @ map backoff [reconnectAttempts s..<reconnectAttempts (bridge_run pg tr s)] \<and>
      sorted (map backoff [reconnectAttempts s..<reconnectAttempts (bridge_run pg tr s)]) \<and>
      (maxReconnectAttempts s \<le> reconnectAttempts s \<longrightarrow>
         scheduled (bridge_run pg tr s) = scheduled s)) \<and>
   (\<forall>a. backoff a \<le> 30000 \<and> backoff 0 = 1000 \<and> backoff (Suc a) = min (2 * backoff a) 30000)"
proof (intro conjI allI impI)
  let ?s = "bridge_run pg evs (new_bridge cfg)"
  note b = run_bounded [OF new_bounded [of cfg], of pg evs]
  from b show "list_all (\<lambda>d. d \<le> 30000) (scheduled ?s)" by (simp add: bounded_def)
  from b show "reconnectAttempts ?s \<le> config_reconnectAttempts cfg" by (simp add: bounded_def)
  fix tr assume q: "\<not> list_ex completes tr"
  from run_bounded [OF b, of pg tr] have "reconnectAttempts (bridge_run pg tr ?s) \<le> config_reconnectAttempts cfg"
    by (simp add: bounded_def)
  with run_advance [OF q, of ?s pg]
  show "length (drop (length (scheduled ?s)) (scheduled (bridge_run pg tr ?s)))
        \<le> config_reconnectAttempts cfg"
    by (simp add: advance_def)
next
  fix s tr assume q: "\<not> list_ex completes tr"
  from run_advance [OF q, of s pg]
  show "scheduled (bridge_run pg tr s) =
        scheduled s @ map backoff [reconnectAttempts s..<reconnectAttempts (bridge_run pg tr s)]"
    by (simp add: advance_def)
  show "sorted (map backoff [reconnectAttempts s..<reconnectAttempts (bridge_run pg tr s)])"
    by (rule sorted_backoff)
  assume "maxReconnectAttempts s \<le> reconnectAttempts s"
  with run_advance [OF q, of s pg] show "scheduled (bridge_run pg tr s) = scheduled s"
    by (simp add: advance_def)
next
  fix a
  from backoff_props [of a] show "backoff a \<le> 30000" "backoff 0 = 1000"
    "backoff (Suc a) = min (2 * backoff a) 30000" by simp_all
qed

theorem reconnect_backoff_witness:
  "\<not> list_ex completes failing_run \<and>
   scheduled (bridge_run demo_page failing_run (new_bridge demo_config)) = [1000, 2000] \<and>
   reconnectAttempts (bridge_run demo_page failing_run (new_bridge demo_config)) = 2"
proof -
  have q: "\<not> list_ex completes failing_run"
    by (simp add: failing_run_def)
  have n: "reconnectAttempts (bridge_run demo_page failing_run (new_bridge demo_config)) = 2"
    by (simp add: failing_run_def demo_page_def demo_config_def new_bridge_def
        bridge_connect_def determineConnectionType_def connectWebSocket_def ws_onerror_def
        scheduleReconnect_def clearTimeout_def backoff_def Let_def)
  have z: "scheduled (new_bridge demo_config) = []" "reconnectAttempts (new_bridge demo_config) = 0"
    by (simp_all add: new_bridge_def)
  have u: "[0..<2] = [0, Suc 0]" by (simp add: upt_rec)
  from reconnect_backoff [of demo_page "[]" demo_config] q
  have "scheduled (bridge_run demo_page failing_run (new_bridge demo_config)) =
      scheduled (new_bridge demo_config) @
        map backoff [reconnectAttempts (new_bridge demo_config)..<
          reconnectAttempts (bridge_run demo_page failing_run (new_bridge demo_config))]"
    by blast
  then have "scheduled (bridge_run demo_page failing_run (new_bridge demo_config)) = [1000, 2000]"
    unfolding n z u by (simp add: backoff_def)
  with q n show ?thesis by simp
qed

subsection \<open>Clean close\<close>

lemmas bridge_defs = new_bridge_def bridge_connect_def determineConnectionType_def
  connectWebSocket_def connectWebRTC_def ws_onerror_def ws_onopen_def ws_onclose_def
  scheduleReconnect_def clearTimeout_def backoff_def setupEventHandlers_def
  connect_timed_out_def disconnect_def rtc_connected_def rtc_failed_def

text \<open>
  Claim C8, at an input where the code departs from it.  A connection attempt fails and
  a reconnect is scheduled in 2000 ms; before that timer fires \<^verbatim>\<open>connect\<close> is called
  and the new socket opens: the bridge is connected and the timer is still set, since
  neither \<^verbatim>\<open>connect\<close> nor \<^verbatim>\<open>onopen\<close> clears it.  Then the server closes the
  socket cleanly.  After that close the state is \<open>DISCONNECTED\<close> and the reconnect
  timer is still pending; when it fires the bridge connects again, without any call of
  \<^verbatim>\<open>connect\<close> after the close.
\<close>

theorem stale_reconnect_after_clean_close:
  "connectionState (bridge_run demo_page reconnected_run (new_bridge demo_config)) = CONNECTED \<and>
   ws (bridge_run demo_page reconnected_run (new_bridge demo_config)) = Some 6 \<and>
   connectionState (bridge_run demo_page stale_run (new_bridge demo_config)) = DISCONNECTED \<and>
   pending_reconnects (bridge_run demo_page stale_run (new_bridge demo_config)) = [(4, Reconnect 2000)] \<and>
   connectionState (bridge_run demo_page (stale_run @ [TimerFired 4]) (new_bridge demo_config))
     = CONNECTING"
  by (simp add: stale_run_def reconnected_run_def demo_page_def demo_config_def bridge_defs
      pending_reconnects_def Let_def)

text \<open>
  What does hold of a clean close: the handler of a clean \<^verbatim>\<open>close\<close> event only sets
  the state, and in every reachable state \<^verbatim>\<open>disconnect\<close> leaves no reconnect timer
  set.
\<close>

lemma ws_onclose_clean: "ws_onclose True s = s\<lparr>connectionState := DISCONNECTED\<rparr>"
  by (simp add: ws_onclose_def)

lemma pending_reconnects_clear:
  "pending_reconnects (clearTimeout h s) = filter (\<lambda>x. fst x \<noteq> h) (pending_reconnects s)"
  by (auto simp: pending_reconnects_def clearTimeout_def intro: filter_cong)

lemma timer_inv_clear_own:
  "timer_inv s \<Longrightarrow> reconnectTimer s = Some h \<Longrightarrow> pending_reconnects (clearTimeout h s) = []"
  by (auto simp: timer_inv_def pending_reconnects_clear list_all_iff filter_empty_conv)

lemma timer_inv_clear: "timer_inv s \<Longrightarrow> timer_inv (clearTimeout h s)"
  by (auto simp: timer_inv_def pending_reconnects_clear list_all_iff) (simp add: clearTimeout_def)

lemma timer_inv_schedule: "timer_inv s \<Longrightarrow> timer_inv (scheduleReconnect s)"
proof -
  assume i: "timer_inv s"
  show ?thesis
  proof (cases "maxReconnectAttempts s \<le> reconnectAttempts s")
    case True
    with i show ?thesis by (simp add: scheduleReconnect_def)
  next
    case False
    show ?thesis
    proof (cases "reconnectTimer s")
      case None
      with i have "pending_reconnects s = []"
        by (cases "pending_reconnects s") (auto simp: timer_inv_def)
      with None False show ?thesis
        by (auto simp: scheduleReconnect_def timer_inv_def pending_reconnects_def Let_def)
    next
      case (Some h)
      from timer_inv_clear_own [OF i Some] Some False show ?thesis
        by (auto simp: scheduleReconnect_def timer_inv_def pending_reconnects_def Let_def
            clearTimeout_def)
    qed
  qed
qed

lemma timer_inv_connect: "timer_inv s \<Longrightarrow> timer_inv (bridge_connect pg s)"
  by (auto simp: bridge_connect_def connectWebRTC_def connectWebSocket_def clearTimeout_def
      timer_inv_def pending_reconnects_def Let_def list_all_iff)

lemma timer_inv_state [simp]:
  "timer_inv (s\<lparr>connectionState := c\<rparr>) = timer_inv s"
  "timer_inv (s\<lparr>awaiting := a\<rparr>) = timer_inv s"
  "timer_inv (s\<lparr>reconnectAttempts := n\<rparr>) = timer_inv s"
  by (simp_all add: timer_inv_def pending_reconnects_def)

lemma timer_inv_message: "timer_inv s \<Longrightarrow> timer_inv (handleMessage pg tx now m s)"
  by (auto simp: handleMessage_def sendMessage_def timer_inv_def pending_reconnects_def
      split: option.splits)

lemma disconnect_clean:
  "timer_inv s \<Longrightarrow>
     pending_reconnects (disconnect s) = [] \<and> connectionState (disconnect s) = DISCONNECTED \<and>
     reconnectTimer (disconnect s) = None \<and> scheduled (disconnect s) = scheduled s \<and>
     reconnectAttempts (disconnect s) = reconnectAttempts s"
proof (cases "reconnectTimer s")
  case None
  assume "timer_inv s"
  with None have "pending_reconnects s = []"
    by (cases "pending_reconnects s") (auto simp: timer_inv_def)
  with None show ?thesis
    by (auto simp: disconnect_def pending_reconnects_def Let_def split: option.splits)
next
  case (Some h)
  assume "timer_inv s"
  from timer_inv_clear_own [OF this Some] Some show ?thesis
    by (auto simp: disconnect_def pending_reconnects_def clearTimeout_def Let_def
        split: option.splits)
qed

lemma timer_inv_step: "timer_inv s \<Longrightarrow> timer_inv (bridge_step pg s e)"
proof (cases e)
  case Disconnect
  assume "timer_inv s"
  from disconnect_clean [OF this] Disconnect show ?thesis
    by (simp add: timer_inv_def)
next
  case (TimerFired t)
  assume "timer_inv s"
  with TimerFired show ?thesis
    by (auto simp: connect_timed_out_def intro!: timer_inv_connect timer_inv_clear
        split: option.splits timer.splits)
next
  case (WsOpen h)
  assume "timer_inv s"
  then have "timer_inv (clearTimeout t s)" for t by (rule timer_inv_clear)
  then have "timer_inv (ws_onopen t s)" for t
    by (auto simp: ws_onopen_def setupEventHandlers_def timer_inv_def pending_reconnects_def
        split: option.splits)
  with WsOpen \<open>timer_inv s\<close> show ?thesis by (simp split: option.splits)
qed (auto simp: ws_onerror_def ws_onclose_def rtc_failed_def rtc_connected_def Let_def
      intro!: timer_inv_connect timer_inv_clear timer_inv_schedule timer_inv_message
      split: option.splits)

lemma timer_inv_run: "timer_inv s \<Longrightarrow> timer_inv (bridge_run pg evs s)"
  by (induction evs arbitrary: s) (simp_all add: timer_inv_step bridge_run_def)

lemma timer_inv_new: "timer_inv (new_bridge cfg)"
  by (simp add: timer_inv_def new_bridge_def pending_reconnects_def)

lemma disconnect_reachable:
  "pending_reconnects (disconnect (bridge_run pg evs (new_bridge cfg))) = [] \<and>
   connectionState (disconnect (bridge_run pg evs (new_bridge cfg))) = DISCONNECTED \<and>
   scheduled (disconnect (bridge_run pg evs (new_bridge cfg))) =
     scheduled (bridge_run pg evs (new_bridge cfg))"
  using disconnect_clean [OF timer_inv_run [OF timer_inv_new, of pg evs cfg]] by simp

subsection \<open>Queries for unknown methods\<close>




section \<open>Properties of the External Service Client\<close>


lemma js_index_not_nullish: "\<not> nullish item \<Longrightarrow> \<exists>v. js_index item i = Some v"
  by (cases item) auto

lemma ids_of_items:
  "list_all (\<lambda>item. \<not> nullish item) xs \<Longrightarrow> \<exists>ids. ids_of (Arr xs) = Some ids"
proof -
  assume a: "list_all (\<lambda>item. \<not> nullish item) xs"
  have "\<exists>ys. those (map (\<lambda>item. js_index item 1) xs) = Some ys"
    using a
  proof (induction xs)
    case Nil
    then show ?case by simp
  next
    case (Cons x xs)
    then obtain ys where "those (map (\<lambda>item. js_index item 1) xs) = Some ys" by auto
    moreover from Cons.prems obtain v where "js_index x 1 = Some v"
      using js_index_not_nullish [of x 1] by auto
    ultimately show ?case by simp
  qed
  then show ?thesis by auto
qed

lemma find_item_not_listed:
  "list_all (\<lambda>item. \<not> nullish item) xs \<Longrightarrow> \<not> listed promptId xs \<Longrightarrow>
     find_item promptId xs = Some Undefined \<and> some_item promptId xs = Some False"
proof (induction xs)
  case Nil
  then show ?case by simp
next
  case (Cons x xs)
  from Cons.prems obtain v where v: "js_index x 1 = Some v"
    using js_index_not_nullish [of x 1] by auto
  with Cons.prems have "v \<noteq> Str promptId" by (auto simp: listed_def)
  with v Cons show ?case by (simp add: listed_def)
qed

text \<open>
  Claim C10.  For every external job id and whatever the service answers, the status
  poll returns and does not throw, and the status it returns is one of \<open>queued\<close>,
  \<open>running\<close>, \<open>complete\<close>, \<open>failed\<close>; \<^verbatim>\<open>getJobStatus\<close> returns that status.
  When the history request fails, and when the history has nothing and the queue request
  fails, the answer is \<^verbatim>\<open>{ status: 'failed' }\<close>; when the history has nothing and
  the id is in neither the running nor the pending queue, the answer is the same object:
  the caller cannot tell a service that is unreachable from a job that is gone.
\<close>

theorem status_poll_total:
  "(\<exists>info. getJobStatusWithProgress sv promptId = Inr info \<and>
      getJobStatus sv promptId = Inr (status info) \<and>
      (status info = ext_queued \<or> status info = ext_running \<or> status info = ext_complete \<or>
       status info = ext_failed)) \<and>
   (history_response sv = None \<longrightarrow>
      getJobStatusWithProgress sv promptId = Inr (only_status ext_failed)) \<and>
   (\<forall>history ks. history_response sv = Some history \<and> Object_keys history = Some ks \<and>
      \<not> (truthy history \<and> ks \<noteq> []) \<and> queue_response sv = None \<longrightarrow>
      getJobStatusWithProgress sv promptId = Inr (only_status ext_failed)) \<and>
   (\<forall>history ks queueData rs ps. history_response sv = Some history \<and>
      Object_keys history = Some ks \<and> \<not> (truthy history \<and> ks \<noteq> []) \<and>
      queue_response sv = Some queueData \<and>
      js_get queueData ''queue_running'' = Some (Arr rs) \<and>
      js_get queueData ''queue_pending'' = Some (Arr ps) \<and>
      list_all (\<lambda>item. \<not> nullish item) rs \<and> list_all (\<lambda>item. \<not> nullish item) ps \<and>
      \<not> listed promptId rs \<and> \<not> listed promptId ps \<longrightarrow>
      getJobStatusWithProgress sv promptId = Inr (only_status ext_failed))"
proof (intro conjI allI impI)
  have "\<exists>info. getJobStatusWithProgress sv promptId = Inr info"
    by (cases "poll sv promptId") (simp_all add: getJobStatusWithProgress_def)
  then obtain info where i: "getJobStatusWithProgress sv promptId = Inr info" ..
  moreover have "status info = ext_queued \<or> status info = ext_running \<or>
      status info = ext_complete \<or> status info = ext_failed"
    by (cases "status info") simp_all
  ultimately show "\<exists>info. getJobStatusWithProgress sv promptId = Inr info \<and>
      getJobStatus sv promptId = Inr (status info) \<and>
      (status info = ext_queued \<or> status info = ext_running \<or> status info = ext_complete \<or>
       status info = ext_failed)"
    by (auto simp: getJobStatus_def)
next
  assume "history_response sv = None"
  then show "getJobStatusWithProgress sv promptId = Inr (only_status ext_failed)"
    by (simp add: getJobStatusWithProgress_def poll_def)
next
  fix history ks
  assume "history_response sv = Some history \<and> Object_keys history = Some ks \<and>
      \<not> (truthy history \<and> ks \<noteq> []) \<and> queue_response sv = None"
  then show "getJobStatusWithProgress sv promptId = Inr (only_status ext_failed)"
    by (auto simp: getJobStatusWithProgress_def poll_def)
next
  fix history ks queueData rs ps
  assume a: "history_response sv = Some history \<and>
      Object_keys history = Some ks \<and> \<not> (truthy history \<and> ks \<noteq> []) \<and>
      queue_response sv = Some queueData \<and>
      js_get queueData ''queue_running'' = Some (Arr rs) \<and>
      js_get queueData ''queue_pending'' = Some (Arr ps) \<and>
      list_all (\<lambda>item. \<not> nullish item) rs \<and> list_all (\<lambda>item. \<not> nullish item) ps \<and>
      \<not> listed promptId rs \<and> \<not> listed promptId ps"
  then obtain ri pi where ids: "ids_of (Arr rs) = Some ri" "ids_of (Arr ps) = Some pi"
    using ids_of_items [of rs] ids_of_items [of ps] by blast
  from a have f: "find_item promptId rs = Some Undefined" "some_item promptId ps = Some False"
    using find_item_not_listed [of rs promptId] find_item_not_listed [of ps promptId] by simp_all
  have "poll sv promptId = Some (only_status ext_failed)"
    using a ids f by (auto simp: poll_def and_some_def)
  then show "getJobStatusWithProgress sv promptId = Inr (only_status ext_failed)"
    by (simp add: getJobStatusWithProgress_def)
qed

theorem status_poll_total_witness:
  "history_response unreachable = None \<and>
   getJobStatusWithProgress unreachable ''job-1'' = Inr (only_status ext_failed) \<and>
   \<not> listed ''job-1'' [Arr [Num 0, Str ''other'', Obj []]] \<and>
   getJobStatusWithProgress forgotten ''job-1'' = Inr (only_status ext_failed) \<and>
   getJobStatus forgotten ''job-1'' = getJobStatus unreachable ''job-1''"
proof -
  have h1: "history_response unreachable = None" by (simp add: unreachable_def)
  have h2: "history_response forgotten = Some (Obj []) \<and>
      Object_keys (Obj []) = Some [] \<and> \<not> (truthy (Obj []) \<and> ([]::string list) \<noteq> []) \<and>
      queue_response forgotten = Some (Obj [(''queue_running'', Arr [Arr [Num 0, Str ''other'', Obj []]]),
                                 (''queue_pending'', Arr [])]) \<and>
      js_get (Obj [(''queue_running'', Arr [Arr [Num 0, Str ''other'', Obj []]]),
                                 (''queue_pending'', Arr [])]) ''queue_running''
        = Some (Arr [Arr [Num 0, Str ''other'', Obj []]]) \<and>
      js_get (Obj [(''queue_running'', Arr [Arr [Num 0, Str ''other'', Obj []]]),
                                 (''queue_pending'', Arr [])]) ''queue_pending'' = Some (Arr []) \<and>
      list_all (\<lambda>item. \<not> nullish item) [Arr [Num 0, Str ''other'', Obj []]] \<and>
      list_all (\<lambda>item. \<not> nullish item) [] \<and>
      \<not> listed ''job-1'' [Arr [Num 0, Str ''other'', Obj []]] \<and> \<not> listed ''job-1'' []"
    by (simp add: forgotten_def listed_def)
  from status_poll_total [of unreachable "''job-1''"] h1
  have u: "getJobStatusWithProgress unreachable ''job-1'' = Inr (only_status ext_failed)" by blast
  from status_poll_total [of forgotten "''job-1''"] h2
  have f: "getJobStatusWithProgress forgotten ''job-1'' = Inr (only_status ext_failed)" by blast
  from u f h1 h2 show ?thesis by (simp add: getJobStatus_def)
qed

section \<open>Properties of the Job Orchestrator\<close>




end
